theory Spec2Isabelle
  imports Main "HOL-Library.Word"
begin

unbundle bit_operations_syntax

section \<open>The amount codec of xrpl/binary\_codec/types/amount.py\<close>

text \<open>
  The module serialises an amount field: a native (XRP) amount is a string and becomes
  8 bytes; an issued-currency amount is a dictionary with the keys \<open>value\<close>,
  \<open>currency\<close> and \<open>issuer\<close> and becomes 48 bytes. The functions below follow the
  module function by function and keep its names. Every \<open>raise\<close> of the module, and
  every exception of the Python library calls it makes, is a value \<open>Inl e\<close>.

  Python strings are modelled as \<open>string\<close>, that is, as strings of the code points
  below 256; among those the decimal digits are \<open>0\<close> to \<open>9\<close> only.
\<close>

subsection \<open>Exceptions\<close>

datatype error =
    XRPLBinaryCodecException string  \<comment> \<open>the codec's own exception, with its message\<close>
  | ValueError                       \<comment> \<open>\<open>int(s)\<close> on a string that is no integer literal\<close>
  | InvalidOperation                 \<comment> \<open>\<open>decimal.InvalidOperation\<close>: \<open>Decimal(s)\<close> on a malformed string, a signalling NaN\<close>
  | DecimalOverflow                  \<comment> \<open>\<open>decimal.Overflow\<close>, trapped by the module's context\<close>
  | TypeError                        \<comment> \<open>comparing the exponent \<open>'F'\<close>, \<open>'n'\<close> or \<open>'N'\<close> of a special value with an int\<close>
  | OverflowError                    \<comment> \<open>\<open>int.to_bytes\<close> on a value that does not fit\<close>
  | IndexError                       \<comment> \<open>\<open>buffer[0]\<close> on an empty buffer\<close>
  | KeyError                         \<comment> \<open>a missing dictionary key\<close>
  | BufferUnderrun                   \<comment> \<open>the byte cursor's end-of-buffer error\<close>

definition bind :: "error + 'a \<Rightarrow> ('a \<Rightarrow> error + 'b) \<Rightarrow> error + 'b" where
  "bind r f = (case r of Inl e \<Rightarrow> Inl e | Inr x \<Rightarrow> f x)"

subsection \<open>Bytes and integers\<close>

type_synonym byte = "8 word"

text \<open>\<open>n.to_bytes(8, byteorder="big", signed=False)\<close> and \<open>int.from_bytes(b, byteorder="big")\<close>.\<close>

definition to_bytes8 :: "int \<Rightarrow> error + byte list" where
  "to_bytes8 n =
     (if n < 0 \<or> 2 ^ 64 \<le> n then Inl OverflowError
      else Inr (map (\<lambda>k. word_of_int (n div 2 ^ (8 * k))) [7, 6, 5, 4, 3, 2, 1, 0]))"

definition from_bytes :: "byte list \<Rightarrow> int" where
  "from_bytes bs = foldl (\<lambda>acc b. acc * 256 + uint b) 0 bs"

subsection \<open>Strings and integer literals\<close>

definition is_digit :: "char \<Rightarrow> bool" where
  "is_digit c = (48 \<le> (of_char c :: nat) \<and> (of_char c :: nat) \<le> 57)"

definition digit_val :: "char \<Rightarrow> nat" where
  "digit_val c = of_char c - 48"

definition digit_char :: "nat \<Rightarrow> char" where
  "digit_char d = ''0123456789'' ! d"

text \<open>The value of a string of digits, most significant first.\<close>

definition int_of_digits :: "string \<Rightarrow> nat" where
  "int_of_digits ds = foldl (\<lambda>acc c. 10 * acc + digit_val c) 0 ds"

text \<open>\<open>str(n)\<close> for an integer: no leading zeros, a minus sign when negative.\<close>

fun str_nat :: "nat \<Rightarrow> string" where
  "str_nat n = (if n < 10 then [digit_char n] else str_nat (n div 10) @ [digit_char (n mod 10)])"

declare str_nat.simps [simp del]

definition str_int :: "int \<Rightarrow> string" where
  "str_int i = (if i < 0 then CHR ''-'' # str_nat (nat (- i)) else str_nat (nat i))"

text \<open>
  \<open>str.isspace\<close> on the code points below 256: tab to carriage return, the four
  separators 28 to 31, the space, NEL (133) and the no-break space (160).
\<close>

definition is_space :: "char \<Rightarrow> bool" where
  "is_space c = (let n = (of_char c :: nat) in
     (9 \<le> n \<and> n \<le> 13) \<or> (28 \<le> n \<and> n \<le> 32) \<or> n = 133 \<or> n = 160)"

definition strip :: "string \<Rightarrow> string" where
  "strip s = rev (dropWhile is_space (rev (dropWhile is_space s)))"

text \<open>\<open>s.rstrip(c)\<close> for a single character \<open>c\<close>.\<close>

definition rstrip :: "char \<Rightarrow> string \<Rightarrow> string" where
  "rstrip c s = rev (dropWhile (\<lambda>x. x = c) (rev s))"

text \<open>An optional sign in front of a literal: whether it is a minus, and the rest.\<close>

fun split_sign :: "string \<Rightarrow> bool \<times> string" where
  "split_sign [] = (False, [])"
| "split_sign (c # r) =
     (if c = CHR ''-'' then (True, r) else if c = CHR ''+'' then (False, r) else (False, c # r))"

text \<open>
  The digits of a base-10 \<open>int\<close> literal: at least one digit, and single underscores
  between digits only.
\<close>

fun int_digits :: "string \<Rightarrow> bool" where
  "int_digits [] = False"
| "int_digits [c] = is_digit c"
| "int_digits (c # d # r) =
     (is_digit c \<and> (if d = CHR ''_'' then int_digits r else int_digits (d # r)))"

text \<open>
  \<open>int(s)\<close>: surrounding whitespace is dropped, a sign is optional, anything else than
  digits raises \<open>ValueError\<close>; so does \<open>"1e5"\<close>. The whitespace that \<open>int\<close> drops is
  narrower than that of \<open>str.strip\<close>: tab to carriage return, the space, NEL and the
  no-break space, but not the separators 28 to 31. A literal of more than 4300 digits
  (the interpreter's default limit, underscores not counted) raises \<open>ValueError\<close> too.
\<close>

definition is_int_space :: "char \<Rightarrow> bool" where
  "is_int_space c = (let n = (of_char c :: nat) in
     (9 \<le> n \<and> n \<le> 13) \<or> n = 32 \<or> n = 133 \<or> n = 160)"

definition int_strip :: "string \<Rightarrow> string" where
  "int_strip s = rev (dropWhile is_int_space (rev (dropWhile is_int_space s)))"

definition MAX_STR_DIGITS :: nat where "MAX_STR_DIGITS = 4300"

definition py_int :: "string \<Rightarrow> error + int" where
  "py_int s =
     (case split_sign (int_strip s) of (neg, r) \<Rightarrow>
        if int_digits r \<and> length (filter (\<lambda>c. c \<noteq> CHR ''_'') r) \<le> MAX_STR_DIGITS
        then (let n = int (int_of_digits (filter (\<lambda>c. c \<noteq> CHR ''_'') r))
              in Inr (if neg then - n else n))
        else Inl ValueError)"

subsection \<open>Constants of the module\<close>

definition MIN_IOU_EXPONENT :: int where "MIN_IOU_EXPONENT = - 96"
definition MAX_IOU_EXPONENT :: int where "MAX_IOU_EXPONENT = 80"
definition MAX_IOU_PRECISION :: nat where "MAX_IOU_PRECISION = 16"
definition MIN_MANTISSA :: nat where "MIN_MANTISSA = 10 ^ 15"
definition MAX_MANTISSA :: nat where "MAX_MANTISSA = 10 ^ 16 - 1"

definition NOT_XRP_BIT_MASK :: byte where "NOT_XRP_BIT_MASK = 0x80"
definition POS_SIGN_BIT_MASK :: int where "POS_SIGN_BIT_MASK = 0x4000000000000000"
definition ZERO_CURRENCY_AMOUNT_HEX :: int where "ZERO_CURRENCY_AMOUNT_HEX = 0x8000000000000000"
definition NATIVE_AMOUNT_BYTE_LENGTH :: nat where "NATIVE_AMOUNT_BYTE_LENGTH = 8"
definition CURRENCY_AMOUNT_BYTE_LENGTH :: nat where "CURRENCY_AMOUNT_BYTE_LENGTH = 48"

subsection \<open>The decimal library, as far as the module uses it\<close>

text \<open>
  A \<open>Decimal\<close> is a sign (\<open>True\<close> for minus), a coefficient and an exponent, or one of
  the special values. The coefficient is a number: the library stores its digits without
  leading zeros, so \<open>as_tuple().digits\<close> are the digits of \<open>str_nat\<close> of it. The
  diagnostic digits a NaN may carry are dropped; the module cannot observe them.
\<close>

datatype decimal =
    Finite bool nat int
  | Infinity bool
  | QNaN bool
  | SNaN bool

definition is_zero :: "decimal \<Rightarrow> bool" where
  "is_zero d = (case d of Finite s c e \<Rightarrow> c = 0 | _ \<Rightarrow> False)"

definition ndigits :: "nat \<Rightarrow> nat" where
  "ndigits c = length (str_nat c)"

definition signed :: "bool \<Rightarrow> nat \<Rightarrow> int" where
  "signed neg c = (if neg then - int c else int c)"

text \<open>
  The context the module installs when it is loaded:
  \<open>Context(prec=16, Emax=80, Emin=-96)\<close>, with the defaults for the rest: rounding
  half-even, no clamping, and the traps \<open>InvalidOperation\<close>, \<open>DivisionByZero\<close> and
  \<open>Overflow\<close>. A trapped signal raises; the others only set a flag. The model is of
  the thread that loaded the module: \<open>getcontext()\<close> is this context.
\<close>

definition Etiny :: int where
  "Etiny = MIN_IOU_EXPONENT - int MAX_IOU_PRECISION + 1"

definition Etop :: int where
  "Etop = MAX_IOU_EXPONENT - int MAX_IOU_PRECISION + 1"

text \<open>
  \<open>Decimal(s)\<close> for a string: the conversion is exact and does not use the context.
  Whitespace around the string is dropped and every underscore removed; then a sign is
  optional, and what follows is a number with at least one digit, an optional
  fraction and an optional exponent, or an infinity, or a NaN. Letters match in either
  case. Anything else raises \<open>InvalidOperation\<close>.

  The library (its C implementation, on a 64-bit build) has limits of its own, the
  constants \<open>decimal.MAX_PREC\<close>, \<open>decimal.MAX_EMAX\<close> and \<open>decimal.MIN_ETINY\<close>. A
  literal is refused, with \<open>InvalidOperation\<close> again, when its exponent is below
  \<open>MIN_ETINY\<close>, when its adjusted exponent (the exponent plus the number of digits of
  the coefficient, less one) is above \<open>MAX_EMAX\<close>, or when the coefficient has more
  than \<open>MAX_PREC\<close> digits. Leading zeros do not count, and a zero counts as one digit:
  \<open>"0e999999999999999999"\<close> is read, \<open>"0e1000000000000000000"\<close> is refused.
\<close>

definition MAX_PREC :: nat where "MAX_PREC = 999999999999999999"
definition MAX_EMAX :: int where "MAX_EMAX = 999999999999999999"
definition MIN_ETINY :: int where "MIN_ETINY = - 1999999999999999997"

definition in_limits :: "nat \<Rightarrow> int \<Rightarrow> bool" where
  "in_limits c e =
     (MIN_ETINY \<le> e \<and> e + int (ndigits c) - 1 \<le> MAX_EMAX \<and> ndigits c \<le> MAX_PREC)"

definition is_upper :: "char \<Rightarrow> bool" where
  "is_upper c = (65 \<le> (of_char c :: nat) \<and> (of_char c :: nat) \<le> 90)"

definition to_lower :: "char \<Rightarrow> char" where
  "to_lower c = (if is_upper c then ''abcdefghijklmnopqrstuvwxyz'' ! (of_char c - 65) else c)"

fun split_frac :: "string \<Rightarrow> string \<times> string" where
  "split_frac [] = ([], [])"
| "split_frac (c # r) =
     (if c = CHR ''.'' then (takeWhile is_digit r, dropWhile is_digit r) else ([], c # r))"

fun parse_exp :: "string \<Rightarrow> int option" where
  "parse_exp [] = Some 0"
| "parse_exp (c # r) =
     (if c = CHR ''e'' \<or> c = CHR ''E''
      then (case split_sign r of (neg, ds) \<Rightarrow>
              if ds \<noteq> [] \<and> list_all is_digit ds
              then Some (signed neg (int_of_digits ds))
              else None)
      else None)"

definition parse_special :: "bool \<Rightarrow> string \<Rightarrow> error + decimal" where
  "parse_special neg r =
     (let w = map to_lower r in
      if w = ''inf'' \<or> w = ''infinity'' then Inr (Infinity neg)
      else if take 3 w = ''nan'' \<and> list_all is_digit (drop 3 w) then Inr (QNaN neg)
      else if take 4 w = ''snan'' \<and> list_all is_digit (drop 4 w) then Inr (SNaN neg)
      else Inl InvalidOperation)"

definition Decimal :: "string \<Rightarrow> error + decimal" where
  "Decimal s =
     (case split_sign (filter (\<lambda>c. c \<noteq> CHR ''_'') (strip s)) of (neg, r) \<Rightarrow>
        (let ip = takeWhile is_digit r in
         case split_frac (dropWhile is_digit r) of (fp, r') \<Rightarrow>
           if ip = [] \<and> fp = [] then parse_special neg r
           else (case parse_exp r' of
                   None \<Rightarrow> Inl InvalidOperation
                 | Some e \<Rightarrow>
                     (let c = int_of_digits (ip @ fp);
                          e' = e - int (length fp)
                      in if in_limits c e' then Inr (Finite neg c e')
                         else Inl InvalidOperation))))"

text \<open>
  The numeric order of two finite values, as \<open>-1\<close>, \<open>0\<close> or \<open>1\<close>: both are scaled
  to the smaller exponent and compared as integers.
\<close>

definition cmp_finite :: "bool \<Rightarrow> nat \<Rightarrow> int \<Rightarrow> bool \<Rightarrow> nat \<Rightarrow> int \<Rightarrow> int" where
  "cmp_finite s1 c1 e1 s2 c2 e2 =
     (let m = min e1 e2;
          a = signed s1 c1 * 10 ^ nat (e1 - m);
          b = signed s2 c2 * 10 ^ nat (e2 - m)
      in if a < b then - 1 else if a = b then 0 else 1)"

definition inf_rank :: "decimal \<Rightarrow> int" where
  "inf_rank d = (case d of Infinity neg \<Rightarrow> (if neg then - 1 else 1) | _ \<Rightarrow> 0)"

definition cmp :: "decimal \<Rightarrow> decimal \<Rightarrow> int" where
  "cmp a b =
     (case (a, b) of
        (Finite s1 c1 e1, Finite s2 c2 e2) \<Rightarrow> cmp_finite s1 c1 e1 s2 c2 e2
      | _ \<Rightarrow> (if inf_rank a < inf_rank b then - 1 else if inf_rank a = inf_rank b then 0 else 1))"

definition of_int_dec :: "int \<Rightarrow> decimal" where
  "of_int_dec k = Finite (k < 0) (nat \<bar>k\<bar>) 0"

text \<open>
  \<open>a.compare(b)\<close>: a signalling NaN raises (the signal is trapped), a quiet NaN is the
  result, otherwise the result is the \<open>Decimal\<close> \<open>-1\<close>, \<open>0\<close> or \<open>1\<close>.
\<close>

definition compare :: "decimal \<Rightarrow> decimal \<Rightarrow> error + decimal" where
  "compare a b =
     (case a of
        SNaN s \<Rightarrow> Inl InvalidOperation
      | _ \<Rightarrow> (case b of
          SNaN s \<Rightarrow> Inl InvalidOperation
        | _ \<Rightarrow> (case a of
            QNaN s \<Rightarrow> Inr (QNaN s)
          | _ \<Rightarrow> (case b of
              QNaN s \<Rightarrow> Inr (QNaN s)
            | _ \<Rightarrow> Inr (of_int_dec (cmp a b))))))"

text \<open>\<open>d == k\<close> for an int \<open>k\<close>: a NaN equals nothing.\<close>

definition eq_int :: "decimal \<Rightarrow> int \<Rightarrow> bool" where
  "eq_int d k =
     (case d of
        QNaN s \<Rightarrow> False
      | SNaN s \<Rightarrow> False
      | _ \<Rightarrow> cmp d (of_int_dec k) = 0)"

text \<open>
  Rounding a finite result to the context (the library's \<open>_fix\<close>). A zero keeps its
  sign and gets its exponent moved into \<open>[Etiny, Emax]\<close>. A nonzero value whose
  adjusted exponent exceeds \<open>Emax\<close> raises \<open>Overflow\<close>. A value with more than 16
  digits, or below \<open>Etiny\<close>, loses its low digits, rounded half to even; when the
  rounding carries into a 17th digit the coefficient is shortened once more, and the
  exponent may overflow then.
\<close>

definition dec_fix :: "bool \<Rightarrow> nat \<Rightarrow> int \<Rightarrow> error + decimal" where
  "dec_fix neg c e =
     (if c = 0 then Inr (Finite neg 0 (min (max e Etiny) MAX_IOU_EXPONENT))
      else
        (let exp_min0 = int (ndigits c) + e - int MAX_IOU_PRECISION in
         if exp_min0 > Etop then Inl DecimalOverflow
         else
           (let exp_min = (if exp_min0 < Etiny then Etiny else exp_min0) in
            if e < exp_min then
              (let k = nat (exp_min - e);
                   q = c div 10 ^ k;
                   r = c mod 10 ^ k;
                   up = (10 ^ k < 2 * r \<or> (2 * r = 10 ^ k \<and> odd q));
                   coeff = (if up then q + 1 else q);
                   carry = (up \<and> MAX_IOU_PRECISION < ndigits coeff);
                   coeff' = (if carry then coeff div 10 else coeff);
                   exp_min' = (if carry then exp_min + 1 else exp_min)
               in if exp_min' > Etop then Inl DecimalOverflow
                  else Inr (Finite neg coeff' exp_min'))
            else Inr (Finite neg c e))))"

text \<open>
  \<open>a * b\<close> in the context: the exact product of two finite values, rounded by \<open>dec_fix\<close>.
  With a special operand: a signalling NaN and infinity times zero raise
  \<open>InvalidOperation\<close>, a quiet NaN is the result, an infinity otherwise.
\<close>

definition is_snan :: "decimal \<Rightarrow> bool" where
  "is_snan d = (case d of SNaN s \<Rightarrow> True | _ \<Rightarrow> False)"

definition is_qnan :: "decimal \<Rightarrow> bool" where
  "is_qnan d = (case d of QNaN s \<Rightarrow> True | _ \<Rightarrow> False)"

definition is_negative :: "decimal \<Rightarrow> bool" where
  "is_negative d = (case d of Finite s c e \<Rightarrow> s | Infinity s \<Rightarrow> s | QNaN s \<Rightarrow> s | SNaN s \<Rightarrow> s)"

definition dec_mul :: "decimal \<Rightarrow> decimal \<Rightarrow> error + decimal" where
  "dec_mul a b =
     (case (a, b) of
        (Finite s1 c1 e1, Finite s2 c2 e2) \<Rightarrow> dec_fix (s1 \<noteq> s2) (c1 * c2) (e1 + e2)
      | _ \<Rightarrow>
        if is_snan a \<or> is_snan b then Inl InvalidOperation
        else if is_qnan a then Inr a
        else if is_qnan b then Inr b
        else if is_zero a \<or> is_zero b then Inl InvalidOperation
        else Inr (Infinity (is_negative a \<noteq> is_negative b)))"

text \<open>\<open>"%+d" % k\<close>: the sign is always written.\<close>

definition fmt_plus_d :: "int \<Rightarrow> string" where
  "fmt_plus_d k = (if k < 0 then CHR ''-'' # str_nat (nat (- k)) else CHR ''+'' # str_nat (nat k))"

definition sign_str :: "bool \<Rightarrow> string" where
  "sign_str neg = (if neg then ''-'' else [])"

text \<open>
  \<open>str(d)\<close>: plain notation when the exponent is at most 0 and the value has at most
  six zeros after the point, scientific notation (one digit before the point, capital
  \<open>E\<close>, signed exponent) otherwise. No digit of the coefficient is dropped.
\<close>

definition dec_str :: "decimal \<Rightarrow> string" where
  "dec_str d =
     (case d of
        Finite neg c e \<Rightarrow>
          (let ds = str_nat c;
               n = int (length ds);
               leftdigits = e + n;
               dotplace = (if e \<le> 0 \<and> - 6 < leftdigits then leftdigits else 1);
               intpart = (if dotplace \<le> 0 then ''0''
                          else if n \<le> dotplace then ds @ replicate (nat (dotplace - n)) CHR ''0''
                          else take (nat dotplace) ds);
               fracpart = (if dotplace \<le> 0 then CHR ''.'' # replicate (nat (- dotplace)) CHR ''0'' @ ds
                           else if n \<le> dotplace then []
                           else CHR ''.'' # drop (nat dotplace) ds);
               ex = (if leftdigits = dotplace then [] else CHR ''E'' # fmt_plus_d (leftdigits - dotplace))
           in sign_str neg @ intpart @ fracpart @ ex)
      | Infinity neg \<Rightarrow> sign_str neg @ ''Infinity''
      | QNaN neg \<Rightarrow> sign_str neg @ ''NaN''
      | SNaN neg \<Rightarrow> sign_str neg @ ''sNaN'')"

text \<open>
  \<open>"{:f}".format(d)\<close>: plain notation always; a zero with a positive exponent is
  written as \<open>0\<close>; there is a point exactly when there are fraction digits.
\<close>

definition format_f :: "decimal \<Rightarrow> string" where
  "format_f d =
     (case d of
        Finite neg c e0 \<Rightarrow>
          (let e = (if c = 0 \<and> 0 < e0 then 0 else e0);
               ds = str_nat c;
               n = int (length ds);
               dotplace = e + n;
               intpart = (if dotplace < 0 then ''0''
                          else if n < dotplace then ds @ replicate (nat (dotplace - n)) CHR ''0''
                          else if dotplace = 0 then ''0''
                          else take (nat dotplace) ds);
               fracpart = (if dotplace < 0 then replicate (nat (- dotplace)) CHR ''0'' @ ds
                           else if n < dotplace then []
                           else drop (nat dotplace) ds)
           in sign_str neg @ intpart @ (if fracpart = [] then [] else CHR ''.'' # fracpart))
      | Infinity neg \<Rightarrow> sign_str neg @ ''Infinity''
      | QNaN neg \<Rightarrow> sign_str neg @ ''NaN''
      | SNaN neg \<Rightarrow> sign_str neg @ ''sNaN'')"

subsection \<open>Validation\<close>

definition MAX_DROPS :: decimal where "MAX_DROPS = Finite False 1 17"  \<comment> \<open>\<open>Decimal("1e17")\<close>\<close>
definition MIN_XRP :: decimal where "MIN_XRP = Finite False 1 (- 6)"   \<comment> \<open>\<open>Decimal("1e-6")\<close>\<close>

text \<open>
  \<open>_contains_decimal\<close>: \<open>string.find(".") == -1\<close>, which holds when the string has
  \<^emph>\<open>no\<close> point, whatever the name says. Both callers negate it.
\<close>

definition contains_decimal :: "string \<Rightarrow> bool" where
  "contains_decimal s = (CHR ''.'' \<notin> set s)"

text \<open>
  A dictionary is the list of its items, in order; its keys are distinct. The values
  of an amount dictionary are strings.
\<close>

type_synonym dict = "(string \<times> string) list"

definition is_valid_issued_currency_amount :: "dict \<Rightarrow> bool" where
  "is_valid_issued_currency_amount v =
     (if length v \<noteq> 3 then False
      else if set (map fst v) = {''currency'', ''issuer'', ''value''} then True
      else False)"

definition invalid_xrp :: "string \<Rightarrow> error" where
  "invalid_xrp s = XRPLBinaryCodecException (s @ '' is an invalid XRP amount.'')"

definition verify_xrp_value :: "string \<Rightarrow> error + unit" where
  "verify_xrp_value xrp_value =
     (if \<not> contains_decimal xrp_value then Inl (invalid_xrp xrp_value)
      else bind (Decimal xrp_value) (\<lambda>decimal.
        if is_zero decimal then Inr ()
        else bind (compare decimal MIN_XRP) (\<lambda>c1.
          if eq_int c1 (- 1) then Inl (invalid_xrp xrp_value)
          else bind (compare decimal MAX_DROPS) (\<lambda>c2.
            if eq_int c2 1 then Inl (invalid_xrp xrp_value)
            else Inr ()))))"

text \<open>
  \<open>_verify_no_decimal\<close>: the value times \<open>Decimal("1e" + str(-(exponent - 15)))\<close>,
  computed in the context, formatted with \<open>"{:f}"\<close>, must show no point.
\<close>

definition verify_no_decimal :: "decimal \<Rightarrow> error + unit" where
  "verify_no_decimal decimal =
     (case decimal of
        Finite s c actual_exponent \<Rightarrow>
          bind (Decimal (''1e'' @ str_int (- (actual_exponent - 15)))) (\<lambda>exponent.
            bind (dec_mul decimal exponent) (\<lambda>product.
              if \<not> contains_decimal (format_f product)
              then Inl (XRPLBinaryCodecException ''Decimal place found in int_number_str'')
              else Inr ()))
      | _ \<Rightarrow> Inl ValueError)"

text \<open>
  \<open>verify_iou_value\<close>: \<open>precision\<close> is \<open>getcontext().prec\<close>, the 16 of the module's
  context. The exponent of a special value is a string, and comparing it with
  \<open>_MAX_IOU_EXPONENT\<close> raises \<open>TypeError\<close>.
\<close>

definition verify_iou_value :: "decimal \<Rightarrow> error + unit" where
  "verify_iou_value issued_currency_value =
     (if is_zero issued_currency_value then Inr ()
      else
        (case issued_currency_value of
           Finite s c exponent \<Rightarrow>
             (let precision = MAX_IOU_PRECISION in
              if precision > MAX_IOU_PRECISION \<or> exponent > MAX_IOU_EXPONENT
                 \<or> exponent < MIN_IOU_EXPONENT
              then Inl (XRPLBinaryCodecException
                          ''Decimal precision out of range for issued currency value.'')
              else verify_no_decimal issued_currency_value)
         | _ \<Rightarrow> Inl TypeError))"

subsection \<open>Serialising the value of an issued-currency amount\<close>

definition overflow_error :: "string \<Rightarrow> error" where
  "overflow_error v = XRPLBinaryCodecException (''Amount overflow in issued currency value '' @ v)"

text \<open>The first loop of \<open>_serialize_issued_currency_value\<close> (lines 164 to 166).\<close>

function upscale :: "nat \<Rightarrow> int \<Rightarrow> nat \<times> int" where
  "upscale mantissa exp =
     (if mantissa < MIN_MANTISSA \<and> exp > MIN_IOU_EXPONENT
      then upscale (mantissa * 10) (exp - 1)
      else (mantissa, exp))"
  by pat_completeness auto
termination
  by (relation "measure (\<lambda>(m, e). nat (e - MIN_IOU_EXPONENT))") auto

declare upscale.simps [simp del]

text \<open>The second loop (lines 168 to 174): it raises when the exponent cannot grow.\<close>

function downscale :: "string \<Rightarrow> nat \<Rightarrow> int \<Rightarrow> error + nat \<times> int" where
  "downscale v mantissa exp =
     (if mantissa > MAX_MANTISSA
      then (if exp \<ge> MAX_IOU_EXPONENT then Inl (overflow_error v)
            else downscale v (mantissa div 10) (exp + 1))
      else Inr (mantissa, exp))"
  by pat_completeness auto
termination
  by (relation "measure (\<lambda>(v, m, e). m)") (auto simp: MAX_MANTISSA_def)

declare downscale.simps [simp del]

text \<open>
  The rest of the function (lines 176 to 192). The statement under \<open># Round to zero\<close>
  builds the zero encoding and drops it: there is no \<open>return\<close>, so \<open>discarded\<close> is not
  used and the function goes on to the overflow check and to the packing.
\<close>

definition pack_issued :: "string \<Rightarrow> bool \<Rightarrow> nat \<Rightarrow> int \<Rightarrow> error + byte list" where
  "pack_issued v sign mantissa exp =
     (let discarded = (if exp < MIN_IOU_EXPONENT \<or> mantissa < MIN_MANTISSA
                       then [to_bytes8 ZERO_CURRENCY_AMOUNT_HEX] else [])
      in if exp > MAX_IOU_EXPONENT \<or> mantissa > MAX_MANTISSA then Inl (overflow_error v)
         else
           (let serial0 = ZERO_CURRENCY_AMOUNT_HEX;
                serial1 = (if \<not> sign then serial0 OR POS_SIGN_BIT_MASK else serial0);
                serial2 = serial1 OR push_bit 54 (exp + 97);
                serial3 = serial2 OR int mantissa
            in to_bytes8 serial3))"

text \<open>
  \<open>_serialize_issued_currency_value\<close>. A special value does not get past
  \<open>verify_iou_value\<close>; the last case is there for totality only.
\<close>

definition serialize_issued_currency_value :: "string \<Rightarrow> error + byte list" where
  "serialize_issued_currency_value v =
     bind (Decimal v) (\<lambda>decimal_value.
       bind (verify_iou_value decimal_value) (\<lambda>u.
         if is_zero decimal_value then to_bytes8 ZERO_CURRENCY_AMOUNT_HEX
         else
           (case decimal_value of
              Finite sign mantissa exp \<Rightarrow>
                (case upscale mantissa exp of (m, e) \<Rightarrow>
                   bind (downscale v m e) (\<lambda>(m', e'). pack_issued v sign m' e'))
            | _ \<Rightarrow> Inl TypeError)))"

subsection \<open>Serialising amounts\<close>

definition serialize_xrp_amount :: "string \<Rightarrow> error + byte list" where
  "serialize_xrp_amount v =
     bind (verify_xrp_value v) (\<lambda>u.
       bind (py_int v) (\<lambda>n.
         to_bytes8 (n OR POS_SIGN_BIT_MASK)))"

definition lookup :: "dict \<Rightarrow> string \<Rightarrow> error + string" where
  "lookup d k = (case map_of d k of None \<Rightarrow> Inl KeyError | Some x \<Rightarrow> Inr x)"

text \<open>
  \<open>_serialize_issued_currency_amount\<close>. The codecs of the currency code and of the
  account are not part of the module: \<open>currency_bytes\<close> stands for
  \<open>Currency.from_value(c).to_bytes()\<close> and \<open>account_bytes\<close> for
  \<open>AccountID.from_value(a).to_bytes()\<close>.
\<close>

definition serialize_issued_currency_amount ::
  "(string \<Rightarrow> error + byte list) \<Rightarrow> (string \<Rightarrow> error + byte list) \<Rightarrow> dict \<Rightarrow> error + byte list" where
  "serialize_issued_currency_amount currency_bytes account_bytes v =
     bind (lookup v ''value'') (\<lambda>amount_string.
       bind (serialize_issued_currency_value amount_string) (\<lambda>amount_bytes.
         bind (lookup v ''currency'') (\<lambda>c.
           bind (currency_bytes c) (\<lambda>cb.
             bind (lookup v ''issuer'') (\<lambda>a.
               bind (account_bytes a) (\<lambda>ib.
                 Inr (amount_bytes @ cb @ ib)))))))"

subsection \<open>The class Amount\<close>

datatype amount = Amount (buffer: "byte list")

datatype py_value = Str string | Dict dict

definition from_value ::
  "(string \<Rightarrow> error + byte list) \<Rightarrow> (string \<Rightarrow> error + byte list) \<Rightarrow> py_value \<Rightarrow> error + amount" where
  "from_value currency_bytes account_bytes v =
     (case v of
        Str s \<Rightarrow> bind (serialize_xrp_amount s) (\<lambda>b. Inr (Amount b))
      | Dict d \<Rightarrow>
          if is_valid_issued_currency_amount d
          then bind (serialize_issued_currency_amount currency_bytes account_bytes d)
                 (\<lambda>b. Inr (Amount b))
          else Inl (XRPLBinaryCodecException ''Invalid type to construct an Amount''))"

definition is_native :: "amount \<Rightarrow> error + bool" where
  "is_native a = (case buffer a of [] \<Rightarrow> Inl IndexError | b # bs \<Rightarrow> Inr (b AND 0x80 = 0))"

definition is_positive :: "amount \<Rightarrow> error + bool" where
  "is_positive a = (case buffer a of [] \<Rightarrow> Inl IndexError | b # bs \<Rightarrow> Inr (0 < b AND 0x40))"

text \<open>
  Modelled from the spec: the byte cursor \<open>BinaryParser\<close> is not among the sources.
  \<open>read n\<close> gives the next \<open>n\<close> bytes and the cursor behind them, and fails with the
  end-of-buffer error when fewer than \<open>n\<close> bytes remain. In \<open>to_json\<close> the cursor runs
  over the amount's own buffer.
\<close>

definition read :: "nat \<Rightarrow> byte list \<Rightarrow> error + byte list \<times> byte list" where
  "read n bs = (if length bs < n then Inl BufferUnderrun else Inr (take n bs, drop n bs))"

text \<open>
  The value of an issued amount as a string (lines 295 to 310 of \<open>to_json\<close>), from the
  8 bytes of the value field. \<open>int_mantissa\<close> is the number whose hexadecimal digits
  are those of \<open>b2 & 0x3F\<close> followed by two digits for each remaining byte.
\<close>

definition issued_value_str :: "byte list \<Rightarrow> error + string" where
  "issued_value_str value_bytes =
     (case value_bytes of
        b1 # b2 # rest \<Rightarrow>
          (let is_pos = (b1 AND 0x40 \<noteq> 0);
               sign = (if is_pos then [] else ''-'');
               exponent = push_bit 2 (uint (b1 AND 0x3F)) + drop_bit 6 (uint (b2 AND 0xFF)) - 97;
               int_mantissa = uint (b2 AND 0x3F) * 256 ^ length rest + from_bytes rest
           in bind (Decimal (sign @ str_int int_mantissa)) (\<lambda>m.
                bind (Decimal (''1e'' @ str_int exponent)) (\<lambda>p.
                  bind (dec_mul m p) (\<lambda>v.
                    bind (verify_iou_value v) (\<lambda>u.
                      if is_zero v then Inr ''0''
                      else Inr (rstrip CHR ''.'' (rstrip CHR ''0'' (dec_str v))))))))
      | _ \<Rightarrow> Inl IndexError)"

text \<open>
  \<open>to_json\<close>: a string for a native amount, an object for an issued one. The object
  keeps the 20 bytes of the currency and of the issuer as the cursor hands them to
  \<open>Currency.from_parser\<close> and \<open>AccountID.from_parser\<close>; their display strings are made
  outside the module.
\<close>

datatype json = JStr string | JAmount string "byte list" "byte list"

definition to_json :: "amount \<Rightarrow> error + json" where
  "to_json a =
     bind (is_native a) (\<lambda>native.
       if native
       then bind (is_positive a) (\<lambda>pos.
              (let sign = (if pos then [] else ''-'');
                   masked_bytes = from_bytes (buffer a) AND 0x3FFFFFFFFFFFFFFF
               in Inr (JStr (sign @ str_int masked_bytes))))
       else bind (read 8 (buffer a)) (\<lambda>(value_bytes, r1).
              bind (read 20 r1) (\<lambda>(currency, r2).
                bind (read 20 r2) (\<lambda>(issuer, r3).
                  bind (issued_value_str value_bytes) (\<lambda>value_str.
                    Inr (JAmount value_str currency issuer))))))"

section \<open>Properties\<close>

subsection \<open>Digits and literals\<close>

lemma bind_Inr [simp]: "bind (Inr x) f = f x"
  by (simp add: bind_def)

lemma bind_Inl [simp]: "bind (Inl e) f = Inl e"
  by (simp add: bind_def)

lemma bind_weak_cong: "r = r' \<Longrightarrow> bind r f = bind r' f"
  by simp

lemma str_nat_lt10: "n < 10 \<Longrightarrow> str_nat n = [digit_char n]"
  by (simp add: str_nat.simps)

lemma str_nat_ge10: "10 \<le> n \<Longrightarrow> str_nat n = str_nat (n div 10) @ [digit_char (n mod 10)]"
  by (subst str_nat.simps) simp

lemma digit_char_cases:
  assumes "d < 10"
  shows "d = 0 \<or> d = 1 \<or> d = 2 \<or> d = 3 \<or> d = 4 \<or> d = 5 \<or> d = 6 \<or> d = 7 \<or> d = 8 \<or> d = (9::nat)"
  using assms by arith

lemma is_digit_digit_char: "d < 10 \<Longrightarrow> is_digit (digit_char d)"
  using digit_char_cases [of d] by (auto simp: is_digit_def digit_char_def)

lemma digit_val_digit_char: "d < 10 \<Longrightarrow> digit_val (digit_char d) = d"
  using digit_char_cases [of d] by (auto simp: digit_val_def digit_char_def)

lemma str_nat_digits: "list_all is_digit (str_nat n)"
proof (induction n rule: str_nat.induct)
  case (1 n)
  show ?case
  proof (cases "n < 10")
    case True
    then show ?thesis by (simp add: str_nat_lt10 is_digit_digit_char)
  next
    case False
    then have "list_all is_digit (str_nat (n div 10))" using 1 by simp
    moreover have "is_digit (digit_char (n mod 10))" by (simp add: is_digit_digit_char)
    ultimately show ?thesis using False by (simp add: str_nat_ge10)
  qed
qed

lemma str_nat_nonempty: "str_nat n \<noteq> []"
  by (cases "n < 10") (simp_all add: str_nat_lt10 str_nat_ge10)

lemma int_of_digits_snoc: "int_of_digits (ds @ [c]) = 10 * int_of_digits ds + digit_val c"
  by (simp add: int_of_digits_def)

lemma int_of_digits_str_nat: "int_of_digits (str_nat n) = n"
proof (induction n rule: str_nat.induct)
  case (1 n)
  show ?case
  proof (cases "n < 10")
    case True
    then show ?thesis by (simp add: str_nat_lt10 int_of_digits_def digit_val_digit_char)
  next
    case False
    then have "int_of_digits (str_nat (n div 10)) = n div 10" using 1 by simp
    then show ?thesis using False
      by (simp add: str_nat_ge10 int_of_digits_snoc digit_val_digit_char)
  qed
qed

subsection \<open>The number of digits\<close>

lemma ndigits_lt10: "n < 10 \<Longrightarrow> ndigits n = 1"
  by (simp add: ndigits_def str_nat_lt10)

lemma ndigits_ge10: "10 \<le> n \<Longrightarrow> ndigits n = Suc (ndigits (n div 10))"
  by (simp add: ndigits_def str_nat_ge10)

lemma ndigits_pos: "0 < ndigits c"
  by (simp add: ndigits_def str_nat_nonempty)

lemma ndigits_upper: "c < 10 ^ ndigits c"
proof (induction c rule: str_nat.induct)
  case (1 n)
  show ?case
  proof (cases "n < 10")
    case True
    then show ?thesis by (simp add: ndigits_lt10)
  next
    case False
    then have "n div 10 < 10 ^ ndigits (n div 10)" using 1 by simp
    then have "n < 10 * 10 ^ ndigits (n div 10)" by simp
    then show ?thesis using False by (simp add: ndigits_ge10)
  qed
qed

lemma ndigits_lower: "c \<noteq> 0 \<Longrightarrow> 10 ^ (ndigits c - 1) \<le> c"
proof (induction c rule: str_nat.induct)
  case (1 n)
  show ?case
  proof (cases "n < 10")
    case True
    then show ?thesis using 1(2) by (simp add: ndigits_lt10)
  next
    case False
    then have "n div 10 \<noteq> 0" by simp
    then have "10 ^ (ndigits (n div 10) - 1) \<le> n div 10" using 1(1) False by simp
    then have "10 * 10 ^ (ndigits (n div 10) - 1) \<le> n" by simp
    moreover have "10 * (10::nat) ^ (ndigits (n div 10) - 1) = 10 ^ ndigits (n div 10)"
      using ndigits_pos [of "n div 10"] by (cases "ndigits (n div 10)") simp_all
    ultimately show ?thesis using False by (simp add: ndigits_ge10)
  qed
qed

lemma ndigits_le:
  assumes "c < 10 ^ k" and "c \<noteq> 0"
  shows "ndigits c \<le> k"
proof (rule ccontr)
  assume "\<not> ndigits c \<le> k"
  then have "k \<le> ndigits c - 1" by simp
  then have "(10::nat) ^ k \<le> 10 ^ (ndigits c - 1)" by (simp add: power_increasing)
  then show False using ndigits_lower [OF assms(2)] assms(1) by linarith
qed

lemma ndigits_gt:
  assumes "k < ndigits c" and "c \<noteq> 0"
  shows "10 ^ k \<le> c"
proof -
  have "k \<le> ndigits c - 1" using assms by simp
  then have "(10::nat) ^ k \<le> 10 ^ (ndigits c - 1)" by (simp add: power_increasing)
  then show ?thesis using ndigits_lower [OF assms(2)] by linarith
qed

lemma ndigits_eqI:
  assumes "10 ^ k \<le> c" and "c < 10 ^ Suc k"
  shows "ndigits c = Suc k"
proof -
  have c0: "c \<noteq> 0" using assms(1) by (cases "c = 0") simp_all
  have "ndigits c \<le> Suc k" using ndigits_le [OF assms(2) c0] .
  moreover have "\<not> ndigits c \<le> k"
  proof
    assume "ndigits c \<le> k"
    then have "(10::nat) ^ ndigits c \<le> 10 ^ k" by (simp add: power_increasing)
    then show False using ndigits_upper [of c] assms(1) by linarith
  qed
  ultimately show ?thesis by simp
qed

lemma digit_val_less: "is_digit c \<Longrightarrow> digit_val c < 10"
  by (auto simp: is_digit_def digit_val_def)

lemma int_of_digits_less: "list_all is_digit ds \<Longrightarrow> int_of_digits ds < 10 ^ length ds"
proof (induction ds rule: rev_induct)
  case Nil
  then show ?case by (simp add: int_of_digits_def)
next
  case (snoc c ds)
  then have "int_of_digits ds < 10 ^ length ds" and "digit_val c < 10"
    by (simp_all add: digit_val_less)
  then have "10 * int_of_digits ds + digit_val c < 10 * 10 ^ length ds" by simp
  then show ?case by (simp add: int_of_digits_snoc)
qed

lemma ndigits_int_of_digits:
  assumes "ds \<noteq> []" and "list_all is_digit ds"
  shows "ndigits (int_of_digits ds) \<le> length ds"
proof (cases "int_of_digits ds = 0")
  case True
  then show ?thesis using assms(1) by (cases ds) (simp_all add: ndigits_lt10)
next
  case False
  then show ?thesis using ndigits_le [OF int_of_digits_less [OF assms(2)]] by simp
qed

subsection \<open>Literals the library reads\<close>

lemmas lim_defs = in_limits_def MAX_PREC_def MAX_EMAX_def MIN_ETINY_def

lemma digit_not_special:
  assumes "is_digit c"
  shows "\<not> is_space c" and "c \<noteq> CHR ''_''" and "c \<noteq> CHR ''-''" and "c \<noteq> CHR ''+''"
    and "c \<noteq> CHR ''.''" and "c \<noteq> CHR ''e''" and "c \<noteq> CHR ''E''"
    and "\<not> is_int_space c"
  using assms by (auto simp: is_digit_def is_space_def is_int_space_def)

lemma dropWhile_hd: "xs \<noteq> [] \<Longrightarrow> \<not> P (hd xs) \<Longrightarrow> dropWhile P xs = xs"
  by (cases xs) auto

lemma strip_id:
  assumes "s \<noteq> []" and "\<not> is_space (hd s)" and "\<not> is_space (last s)"
  shows "strip s = s"
proof -
  have a: "dropWhile is_space s = s" using assms by (simp add: dropWhile_hd)
  have "rev s \<noteq> []" and "hd (rev s) = last s" using assms by (simp_all add: hd_rev)
  then have b: "dropWhile is_space (rev s) = rev s" using assms by (simp add: dropWhile_hd)
  show ?thesis by (simp add: strip_def a b)
qed

lemma digits_strip:
  assumes "ds \<noteq> []" and "list_all is_digit ds"
  shows "strip ds = ds"
proof -
  have "is_digit (hd ds)" and "is_digit (last ds)"
    using assms by (auto simp: list_all_iff)
  then show ?thesis using assms by (simp add: strip_id digit_not_special)
qed

lemma digits_int_strip:
  assumes "ds \<noteq> []" and "list_all is_digit ds"
  shows "int_strip ds = ds"
proof -
  have "is_digit (hd ds)" and "is_digit (last ds)"
    using assms by (auto simp: list_all_iff)
  then have "\<not> is_int_space (hd ds)" and "\<not> is_int_space (hd (rev ds))"
    using assms(1) by (simp_all add: digit_not_special hd_rev)
  then show ?thesis using assms(1) by (simp add: int_strip_def dropWhile_hd)
qed

lemma digits_filter:
  assumes "list_all is_digit ds"
  shows "filter (\<lambda>c. c \<noteq> CHR ''_'') ds = ds"
  using assms by (induction ds) (auto simp: digit_not_special)

lemma digits_split_sign:
  assumes "ds \<noteq> []" and "list_all is_digit ds"
  shows "split_sign ds = (False, ds)"
  using assms by (cases ds) (auto simp: digit_not_special)

lemma digits_takeWhile:
  assumes "list_all is_digit ds"
  shows "takeWhile is_digit ds = ds" and "dropWhile is_digit ds = []"
  using assms by (induction ds) auto

lemma Decimal_digits:
  assumes "ds \<noteq> []" and "list_all is_digit ds"
  shows "Decimal ds =
           (if ndigits (int_of_digits ds) \<le> MAX_PREC
            then Inr (Finite False (int_of_digits ds) 0) else Inl InvalidOperation)"
proof -
  have "in_limits (int_of_digits ds) 0 = (ndigits (int_of_digits ds) \<le> MAX_PREC)"
    by (auto simp: lim_defs)
  then show ?thesis
    using assms
    by (simp add: Decimal_def digits_strip digits_filter digits_split_sign digits_takeWhile)
qed

lemma Decimal_digits_short:
  assumes "ds \<noteq> []" and "list_all is_digit ds" and "length ds \<le> 999999999999999999"
  shows "Decimal ds = Inr (Finite False (int_of_digits ds) 0)"
  using Decimal_digits [OF assms(1,2)] ndigits_int_of_digits [OF assms(1,2)] assms(3)
  by (simp add: MAX_PREC_def)

lemma str_int_split_sign:
  "split_sign (str_int k) = (k < 0, str_nat (nat \<bar>k\<bar>))"
proof (cases "k < 0")
  case True
  then show ?thesis by (simp add: str_int_def abs_if)
next
  case False
  have "is_digit (hd (str_nat (nat k)))"
    using str_nat_digits [of "nat k"] str_nat_nonempty [of "nat k"]
    by (cases "str_nat (nat k)") auto
  then have "split_sign (str_nat (nat k)) = (False, str_nat (nat k))"
    using str_nat_nonempty [of "nat k"] str_nat_digits [of "nat k"]
    by (simp add: digits_split_sign)
  then show ?thesis using False by (simp add: str_int_def abs_if)
qed

lemma str_int_chars:
  "list_all (\<lambda>c. is_digit c \<or> c = CHR ''-'') (str_int k)"
  using str_nat_digits [of "nat k"] str_nat_digits [of "nat (- k)"]
  by (auto simp: str_int_def list_all_iff)

lemma str_int_nonempty: "str_int k \<noteq> []"
  by (simp add: str_int_def str_nat_nonempty)

lemma str_nat_last: "is_digit (last (str_nat n))"
  using str_nat_digits [of n] str_nat_nonempty [of n] last_in_set [of "str_nat n"]
  by (simp add: list_all_iff)

lemma str_int_last: "is_digit (last (str_int k))"
  by (simp add: str_int_def str_nat_nonempty str_nat_last)

lemma parse_exp_str_int: "parse_exp (CHR ''e'' # str_int k) = Some k"
  using str_nat_digits [of "nat \<bar>k\<bar>"]
  by (simp add: str_int_split_sign str_nat_nonempty int_of_digits_str_nat signed_def)

lemma Decimal_1e:
  assumes "MIN_ETINY \<le> k" and "k \<le> MAX_EMAX"
  shows "Decimal (''1e'' @ str_int k) = Inr (Finite False 1 k)"
proof -
  have lim: "in_limits (Suc 0) k" using assms by (simp add: lim_defs ndigits_lt10)
  let ?s = "''1e'' @ str_int k"
  have last: "last ?s = last (str_int k)" by (simp add: str_int_nonempty)
  have "strip ?s = ?s"
    using str_int_last [of k]
    by (intro strip_id) (simp_all add: str_int_nonempty digit_not_special, simp add: is_space_def)
  moreover have "filter (\<lambda>c. c \<noteq> CHR ''_'') (str_int k) = str_int k"
    using str_int_chars [of k] by (auto simp: list_all_iff filter_id_conv dest: digit_not_special(2))
  ultimately show ?thesis
    using lim
    by (simp add: Decimal_def is_digit_def parse_exp_str_int int_of_digits_def digit_val_def
        del: parse_exp.simps)
qed

subsection \<open>Evaluation rules\<close>

lemma upscale_stop: "MIN_MANTISSA \<le> m \<or> e \<le> MIN_IOU_EXPONENT \<Longrightarrow> upscale m e = (m, e)"
  by (subst upscale.simps) auto

lemma upscale_step:
  "m < MIN_MANTISSA \<Longrightarrow> MIN_IOU_EXPONENT < e \<Longrightarrow> upscale m e = upscale (m * 10) (e - 1)"
  by (subst upscale.simps) simp

lemma downscale_stop: "m \<le> MAX_MANTISSA \<Longrightarrow> downscale v m e = Inr (m, e)"
  by (subst downscale.simps) simp

lemma downscale_raise:
  "MAX_MANTISSA < m \<Longrightarrow> MAX_IOU_EXPONENT \<le> e \<Longrightarrow> downscale v m e = Inl (overflow_error v)"
  by (subst downscale.simps) simp

lemma downscale_step:
  "MAX_MANTISSA < m \<Longrightarrow> e < MAX_IOU_EXPONENT \<Longrightarrow> downscale v m e = downscale v (m div 10) (e + 1)"
  by (subst downscale.simps) simp

lemmas num_defs = MIN_IOU_EXPONENT_def MAX_IOU_EXPONENT_def MAX_IOU_PRECISION_def
  MIN_MANTISSA_def MAX_MANTISSA_def Etiny_def Etop_def ZERO_CURRENCY_AMOUNT_HEX_def
  POS_SIGN_BIT_MASK_def

lemmas str_eval = str_nat_lt10 str_nat_ge10 digit_char_def str_int_def

lemma replicate_numeral: "replicate (numeral k) x = x # replicate (pred_numeral k) x"
  by (simp add: numeral_eq_Suc)

lemma Decimal_1e_Cons:
  assumes "MIN_ETINY \<le> k" and "k \<le> MAX_EMAX"
  shows "Decimal (CHR ''1'' # CHR ''e'' # str_int k) = Inr (Finite False 1 k)"
  using Decimal_1e [OF assms] by simp

lemma verify_no_decimal_Finite:
  assumes "MIN_IOU_EXPONENT \<le> e" and "e \<le> MAX_IOU_EXPONENT"
  shows "verify_no_decimal (Finite s c e) =
     bind (dec_fix s c 15) (\<lambda>product.
       if \<not> contains_decimal (format_f product)
       then Inl (XRPLBinaryCodecException ''Decimal place found in int_number_str'')
       else Inr ())"
proof -
  have "MIN_ETINY \<le> 15 - e" and "15 - e \<le> MAX_EMAX"
    using assms by (simp_all add: MIN_ETINY_def MAX_EMAX_def num_defs)
  then show ?thesis
    by (simp add: verify_no_decimal_def Decimal_1e_Cons dec_mul_def)
qed

lemma verify_iou_value_Finite:
  assumes "c \<noteq> 0" and "MIN_IOU_EXPONENT \<le> e" and "e \<le> MAX_IOU_EXPONENT"
  shows "verify_iou_value (Finite s c e) = verify_no_decimal (Finite s c e)"
  using assms by (simp add: verify_iou_value_def is_zero_def)

lemma serialize_Finite:
  assumes "Decimal v = Inr (Finite s c e)" and "c \<noteq> 0"
    and "verify_iou_value (Finite s c e) = Inr ()"
    and "upscale c e = (m, e1)"
  shows "serialize_issued_currency_value v =
           bind (downscale v m e1) (\<lambda>(m', e'). pack_issued v s m' e')"
  using assms by (simp add: serialize_issued_currency_value_def is_zero_def)

lemma to_bytes8_zero: "to_bytes8 ZERO_CURRENCY_AMOUNT_HEX = Inr [0x80, 0, 0, 0, 0, 0, 0, 0]"
  by (simp add: to_bytes8_def ZERO_CURRENCY_AMOUNT_HEX_def)

subsection \<open>The value \<open>1e-96\<close>\<close>

lemma Decimal_1e_m96: "Decimal ''1e-96'' = Inr (Finite False 1 (- 96))"
  using Decimal_1e [of "- 96"] by (simp add: str_eval MIN_ETINY_def MAX_EMAX_def)

lemma fix_1_15: "dec_fix False 1 15 = Inr (Finite False 1 15)"
  by (simp add: dec_fix_def ndigits_lt10 num_defs del: One_nat_def)

lemma format_f_1_15: "format_f (Finite False 1 15) = ''1000000000000000''"
  by (simp add: format_f_def str_eval sign_str_def replicate_numeral)

lemma verify_1e_m96: "verify_iou_value (Finite False 1 (- 96)) = Inr ()"
  by (simp add: verify_iou_value_Finite verify_no_decimal_Finite num_defs
      fix_1_15 format_f_1_15 contains_decimal_def del: One_nat_def)

text \<open>
  Claim C1. A nonzero value that ends the two loops with a mantissa below \<open>10\<^sup>1\<^sup>5\<close>
  should be returned as the zero encoding \<open>80 00 00 00 00 00 00 00\<close>. For \<open>"1e-96"\<close>
  the loops leave mantissa 1 and exponent -96; the zero encoding is built and dropped, and
  the function returns the packed bytes \<open>C0 40 00 00 00 00 00 01\<close> instead.
\<close>

theorem C1_round_to_zero_not_returned:
  "serialize_issued_currency_value ''1e-96'' = Inr [0xC0, 0x40, 0, 0, 0, 0, 0, 1]"
proof -
  have u: "upscale 1 (- 96) = (1, - 96)"
    by (simp add: upscale_stop num_defs)
  have d: "downscale ''1e-96'' 1 (- 96) = Inr (1, - 96)"
    by (simp add: downscale_stop num_defs)
  have p: "pack_issued ''1e-96'' False 1 (- 96) = Inr [0xC0, 0x40, 0, 0, 0, 0, 0, 1]"
    by (simp add: pack_issued_def num_defs to_bytes8_def)
  show ?thesis
    using serialize_Finite [OF Decimal_1e_m96 _ verify_1e_m96 u]
    by (simp add: d p del: One_nat_def)
qed

subsection \<open>Native amounts\<close>

lemma compare_Finite:
  "compare (Finite s1 c1 e1) (Finite s2 c2 e2) = Inr (of_int_dec (cmp_finite s1 c1 e1 s2 c2 e2))"
  by (simp add: compare_def cmp_def)

lemma signed_of_int: "signed (r < 0) (nat \<bar>r\<bar>) = r"
  by (simp add: signed_def)

lemma eq_int_of_int_dec: "eq_int (of_int_dec r) k = (r = k)"
  by (simp add: eq_int_def of_int_dec_def cmp_def cmp_finite_def signed_of_int)

lemma cmp_finite_cases:
  "cmp_finite s1 c1 e1 s2 c2 e2 = - 1 \<or> cmp_finite s1 c1 e1 s2 c2 e2 = 0
   \<or> cmp_finite s1 c1 e1 s2 c2 e2 = 1"
  by (simp add: cmp_finite_def Let_def)

lemma verify_xrp_value_Finite:
  assumes "contains_decimal s" and "Decimal s = Inr (Finite sg c e)" and "c \<noteq> 0"
  shows "verify_xrp_value s =
           (if cmp_finite sg c e False 1 (- 6) = - 1 \<or> cmp_finite sg c e False 1 17 = 1
            then Inl (invalid_xrp s) else Inr ())"
  using assms
  by (simp add: verify_xrp_value_def is_zero_def MIN_XRP_def MAX_DROPS_def compare_Finite
      eq_int_of_int_dec del: One_nat_def)

lemma verify_xrp_value_zero:
  assumes "contains_decimal s" and "Decimal s = Inr (Finite sg 0 e)"
  shows "verify_xrp_value s = Inr ()"
  using assms by (simp add: verify_xrp_value_def is_zero_def)

lemma Decimal_1e5: "Decimal ''1e5'' = Inr (Finite False 1 5)"
  using Decimal_1e [of 5] by (simp add: str_eval MIN_ETINY_def MAX_EMAX_def)

lemma verify_xrp_1e5: "verify_xrp_value ''1e5'' = Inr ()"
proof -
  have "contains_decimal ''1e5''" by (simp add: contains_decimal_def)
  from verify_xrp_value_Finite [OF this Decimal_1e5]
  show ?thesis by (simp add: cmp_finite_def signed_def)
qed

lemma py_int_1e5: "py_int ''1e5'' = Inl ValueError"
  by (simp add: py_int_def int_strip_def is_int_space_def is_digit_def)

lemma serialize_xrp_1e5: "serialize_xrp_amount ''1e5'' = Inl ValueError"
  by (simp add: serialize_xrp_amount_def verify_xrp_1e5 py_int_1e5)

text \<open>
  Claim C3. \<open>from_value\<close> should return an amount or raise
  \<open>XRPLBinaryCodecException\<close>, as its docstring says. The string \<open>"1e5"\<close> has no point
  and its value is in range, so \<open>verify_xrp_value\<close> accepts it; \<open>int("1e5")\<close> then raises
  \<open>ValueError\<close>, which \<open>from_value\<close> passes on.
\<close>

theorem C3_from_value_untyped_error:
  "from_value currency_bytes account_bytes (Str ''1e5'') = Inl ValueError"
  by (simp add: from_value_def serialize_xrp_1e5)

text \<open>
  Claim C7. Decoding the encoding of a valid native string should give back its value.
  \<open>"1e5"\<close> passes the validation (no point, value \<open>10\<^sup>5\<close>), but there is nothing to
  decode: the encoding raises \<open>ValueError\<close>.
\<close>

theorem C7_round_trip_fails_on_exponent_string:
  "contains_decimal ''1e5'' \<and> verify_xrp_value ''1e5'' = Inr ()
   \<and> bind (from_value currency_bytes account_bytes (Str ''1e5'')) to_json = Inl ValueError"
  by (simp add: from_value_def serialize_xrp_1e5 verify_xrp_1e5 contains_decimal_def)

subsection \<open>Native validation of digit strings\<close>

lemma digits_contains_decimal:
  assumes "list_all is_digit ds"
  shows "contains_decimal ds"
  using assms by (auto simp: contains_decimal_def list_all_iff dest: digit_not_special(5))

lemma ndigits_small: "c \<le> 10 ^ 17 \<Longrightarrow> ndigits c \<le> MAX_PREC"
proof -
  assume "c \<le> 10 ^ 17"
  then have "c < 10 ^ 18" by simp
  then have "ndigits c \<le> 18 \<or> c = 0" using ndigits_le [of c 18] by blast
  then show ?thesis by (auto simp: MAX_PREC_def ndigits_lt10)
qed

lemma verify_xrp_value_digits:
  assumes "ds \<noteq> []" and "list_all is_digit ds"
  shows "verify_xrp_value ds =
           (if int_of_digits ds \<le> 10 ^ 17 then Inr ()
            else if ndigits (int_of_digits ds) \<le> MAX_PREC then Inl (invalid_xrp ds)
            else Inl InvalidOperation)"
proof (cases "ndigits (int_of_digits ds) \<le> MAX_PREC")
  case False
  then have "\<not> int_of_digits ds \<le> 10 ^ 17" using ndigits_small by blast
  moreover have "Decimal ds = Inl InvalidOperation"
    using Decimal_digits [OF assms] False by simp
  ultimately show ?thesis
    using False digits_contains_decimal [OF assms(2)] by (simp add: verify_xrp_value_def)
next
  case prec: True
  then have dec: "Decimal ds = Inr (Finite False (int_of_digits ds) 0)"
    using Decimal_digits [OF assms] by simp
  show ?thesis
  proof (cases "int_of_digits ds = 0")
  case True
  then show ?thesis
    using verify_xrp_value_zero [OF digits_contains_decimal [OF assms(2)], of False 0] dec
    by simp
next
  case False
  have lo: "cmp_finite False (int_of_digits ds) 0 False 1 (- 6) \<noteq> - 1"
  proof -
    have "(1::int) \<le> int (int_of_digits ds) * 10 ^ 6" using False by simp
    then show ?thesis by (simp add: cmp_finite_def signed_def)
  qed
  have hi: "cmp_finite False (int_of_digits ds) 0 False 1 17 = 1 \<longleftrightarrow> 10 ^ 17 < int_of_digits ds"
  proof -
    have "int (int_of_digits ds) > 10 ^ 17 \<longleftrightarrow> 10 ^ 17 < int_of_digits ds"
      by (metis of_nat_less_iff of_nat_numeral of_nat_power)
    then show ?thesis by (auto simp add: cmp_finite_def signed_def)
  qed
  show ?thesis
    using verify_xrp_value_Finite [OF digits_contains_decimal [OF assms(2)] dec False] lo hi prec
    by (simp add: not_less)
qed
qed

lemma int_digits_digits:
  assumes "ds \<noteq> []" and "list_all is_digit ds"
  shows "int_digits ds"
  using assms
proof (induction ds rule: int_digits.induct)
  case 1
  then show ?case by simp
next
  case (2 c)
  then show ?case by simp
next
  case (3 c d r)
  then show ?case by (auto dest: digit_not_special(2))
qed

lemma py_int_digits:
  assumes "ds \<noteq> []" and "list_all is_digit ds" and "length ds \<le> MAX_STR_DIGITS"
  shows "py_int ds = Inr (int (int_of_digits ds))"
  using assms
  by (simp add: py_int_def digits_int_strip digits_split_sign int_digits_digits digits_filter)

lemma serialize_xrp_amount_digits:
  assumes "ds \<noteq> []" and "list_all is_digit ds" and "int_of_digits ds \<le> 10 ^ 17"
    and "length ds \<le> MAX_STR_DIGITS"
  shows "serialize_xrp_amount ds = to_bytes8 (int (int_of_digits ds) OR POS_SIGN_BIT_MASK)"
  using assms by (simp add: serialize_xrp_amount_def verify_xrp_value_digits py_int_digits)

lemmas digit_eval = is_digit_def int_of_digits_def digit_val_def







subsection \<open>Bits of the encoding\<close>

lemma from_bytes_foldl_nonneg:
  "0 \<le> acc \<Longrightarrow> 0 \<le> foldl (\<lambda>acc b. acc * 256 + uint (b :: byte)) acc bs"
  by (induction bs arbitrary: acc) simp_all

lemma from_bytes_nonneg: "0 \<le> from_bytes bs"
  by (simp add: from_bytes_def from_bytes_foldl_nonneg)

lemma and_mask62: "(x :: int) AND 0x3FFFFFFFFFFFFFFF = x mod 2 ^ 62"
proof -
  have m: "(0x3FFFFFFFFFFFFFFF :: int) = mask 62" by (simp add: mask_eq_exp_minus_1)
  have "x AND mask 62 = x mod 2 ^ 62" by (metis take_bit_eq_mask take_bit_eq_mod)
  then show ?thesis unfolding m .
qed

lemma byte_and_0x40: "(0 < (b :: byte) AND 0x40) = bit b 6"
proof -
  have "(b AND 2 ^ 6 = 0) = (\<not> bit b 6)" by (rule and_exp_eq_0_iff_not_bit)
  then show ?thesis by (simp add: word_gt_0)
qed

lemma to_json_native:
  assumes "b AND 0x80 = 0"
  shows "to_json (Amount (b # bs)) =
           Inr (JStr ((if bit b 6 then [] else ''-'')
                      @ str_nat (nat (from_bytes (b # bs) mod 2 ^ 62))))"
proof -
  have "0 \<le> from_bytes (b # bs) mod 2 ^ 62" by simp
  then have "str_int (from_bytes (b # bs) mod 2 ^ 62) = str_nat (nat (from_bytes (b # bs) mod 2 ^ 62))"
    by (simp add: str_int_def)
  then show ?thesis
    using assms by (simp add: to_json_def is_native_def is_positive_def byte_and_0x40 and_mask62)
qed

text \<open>
  Claim C2, as stated, has a native amount rendered without a sign whether bit 62 is set
  or not. \<open>to_json\<close> writes a minus sign when the bit is clear: eight zero bytes give
  \<open>"-0"\<close>.
\<close>

theorem C2_sign_written_when_bit_62_clear:
  "is_native (Amount [0, 0, 0, 0, 0, 0, 0, 0]) = Inr True
   \<and> to_json (Amount [0, 0, 0, 0, 0, 0, 0, 0]) = Inr (JStr ''-0'')"
  using to_json_native [of 0 "[0, 0, 0, 0, 0, 0, 0]"]
  by (simp add: is_native_def from_bytes_def str_nat_lt10 digit_char_def)

text \<open>
  Claim C2, amended. For a buffer of 8 bytes whose bit 63 is clear, \<open>to_json\<close> masks off
  bits 63 and 62 and returns the decimal digits of the remaining 62-bit big-endian number,
  with no sign when bit 62 is set and with a minus sign in front when bit 62 is clear.
\<close>

theorem C2_native_to_json:
  assumes "length buf = 8" and "hd buf AND 0x80 = 0"
  shows "to_json (Amount buf) =
           Inr (JStr ((if bit (hd buf) 6 then [] else ''-'')
                      @ str_nat (nat (from_bytes buf mod 2 ^ 62))))
         \<and> list_all is_digit (str_nat (nat (from_bytes buf mod 2 ^ 62)))"
proof -
  obtain b bs where buf: "buf = b # bs" using assms(1) by (cases buf) auto
  show ?thesis using assms(2) by (simp add: buf to_json_native str_nat_digits)
qed

theorem C2_native_to_json_witness:
  "to_json (Amount [0x40, 0, 0, 0, 0, 0, 0, 100]) = Inr (JStr ''100'')
   \<and> to_json (Amount [0x00, 0, 0, 0, 0, 0, 0, 100]) = Inr (JStr ''-100'')"
proof -
  have s: "str_nat 100 = ''100''"
    by (simp add: str_nat_lt10 str_nat_ge10 digit_char_def)
  have f1: "from_bytes [0x40, 0, 0, 0, 0, 0, 0, 100] = 0x4000000000000064"
    by (simp add: from_bytes_def)
  have f2: "from_bytes [0x00, 0, 0, 0, 0, 0, 0, 100] = 100"
    by (simp add: from_bytes_def)
  have a: "to_json (Amount [0x40, 0, 0, 0, 0, 0, 0, 100]) = Inr (JStr ''100'')"
    using C2_native_to_json [of "[0x40, 0, 0, 0, 0, 0, 0, 100]"]
    by (simp add: f1 s)
  have b: "to_json (Amount [0x00, 0, 0, 0, 0, 0, 0, 100]) = Inr (JStr ''-100'')"
    using C2_native_to_json [of "[0x00, 0, 0, 0, 0, 0, 0, 100]"]
    by (simp add: f2 s)
  show ?thesis using a b by simp
qed

subsection \<open>The sign bit\<close>

lemma to_bytes8_hd:
  assumes "to_bytes8 n = Inr b"
  shows "\<exists>bs. b = (word_of_int (drop_bit 56 n) :: byte) # bs"
  using assms by (auto simp: to_bytes8_def drop_bit_eq_div split: if_splits)

lemma is_positive_to_bytes8:
  assumes "to_bytes8 n = Inr b"
  shows "is_positive (Amount (b @ rest)) = Inr (bit n 62)"
proof -
  obtain bs where b: "b = (word_of_int (drop_bit 56 n) :: byte) # bs"
    using to_bytes8_hd [OF assms] by blast
  have "bit (word_of_int (drop_bit 56 n) :: byte) 6 = bit n 62"
    by (simp add: bit_word_of_int_iff bit_drop_bit_eq)
  then show ?thesis by (simp add: is_positive_def b byte_and_0x40)
qed

lemma not_bit_small:
  assumes "0 \<le> (k :: int)" and "k < 2 ^ n"
  shows "\<not> bit k n"
  using assms by (simp add: bit_iff_odd)

lemma upscale_exp_lower:
  "MIN_IOU_EXPONENT \<le> e \<Longrightarrow> upscale m e = (m', e') \<Longrightarrow> MIN_IOU_EXPONENT \<le> e'"
proof (induction m e rule: upscale.induct)
  case (1 mantissa exp)
  show ?case
  proof (cases "mantissa < MIN_MANTISSA \<and> exp > MIN_IOU_EXPONENT")
    case True
    then have "upscale (mantissa * 10) (exp - 1) = (m', e')"
      using 1(3) by (simp add: upscale_step)
    moreover have "MIN_IOU_EXPONENT \<le> exp - 1" using True by simp
    ultimately show ?thesis using 1(1) True by blast
  next
    case False
    then have "upscale mantissa exp = (mantissa, exp)" by (auto simp: upscale_stop)
    then show ?thesis using 1(2,3) by simp
  qed
qed

lemma downscale_exp_lower:
  "downscale v m e = Inr (m', e') \<Longrightarrow> e \<le> e'"
proof (induction v m e rule: downscale.induct)
  case (1 v mantissa exp)
  show ?case
  proof (cases "mantissa > MAX_MANTISSA")
    case True
    show ?thesis
    proof (cases "exp \<ge> MAX_IOU_EXPONENT")
      case True
      then show ?thesis using 1(2) \<open>mantissa > MAX_MANTISSA\<close> by (simp add: downscale_raise)
    next
      case False
      then have "downscale v (mantissa div 10) (exp + 1) = Inr (m', e')"
        using 1(2) True by (simp add: downscale_step)
      then have "exp + 1 \<le> e'" using 1(1) True False by simp
      then show ?thesis by simp
    qed
  next
    case False
    then show ?thesis using 1(2) by (simp add: downscale_stop)
  qed
qed

lemma verify_iou_value_Inr:
  assumes "verify_iou_value (Finite s c e) = Inr ()" and "c \<noteq> 0"
  shows "MIN_IOU_EXPONENT \<le> e" and "e \<le> MAX_IOU_EXPONENT"
  using assms by (auto simp: verify_iou_value_def is_zero_def split: if_splits)

text \<open>What a successful serialisation of a nonzero value has packed.\<close>

lemma serialize_nonzero_Inr:
  assumes "Decimal v = Inr (Finite s c e)" and "c \<noteq> 0"
    and "serialize_issued_currency_value v = Inr b"
  shows "\<exists>m' e'. MIN_IOU_EXPONENT \<le> e' \<and> e' \<le> MAX_IOU_EXPONENT \<and> m' \<le> MAX_MANTISSA
           \<and> to_bytes8 (((if s then ZERO_CURRENCY_AMOUNT_HEX
                          else ZERO_CURRENCY_AMOUNT_HEX OR POS_SIGN_BIT_MASK)
                         OR push_bit 54 (e' + 97)) OR int m') = Inr b"
proof -
  have v: "verify_iou_value (Finite s c e) = Inr ()"
    using assms by (cases "verify_iou_value (Finite s c e)")
      (simp_all add: serialize_issued_currency_value_def)
  obtain m e1 where u: "upscale c e = (m, e1)" by (cases "upscale c e")
  have e1: "MIN_IOU_EXPONENT \<le> e1"
    using upscale_exp_lower [OF verify_iou_value_Inr(1) [OF v assms(2)] u] .
  have ser: "bind (downscale v m e1) (\<lambda>(m', e'). pack_issued v s m' e') = Inr b"
    using serialize_Finite [OF assms(1,2) v u] assms(3) by simp
  then obtain m' e' where d: "downscale v m e1 = Inr (m', e')"
    by (cases "downscale v m e1") auto
  have p: "pack_issued v s m' e' = Inr b" using ser d by simp
  have e': "MIN_IOU_EXPONENT \<le> e'" using downscale_exp_lower [OF d] e1 by simp
  have rng: "e' \<le> MAX_IOU_EXPONENT \<and> m' \<le> MAX_MANTISSA"
    using p by (auto simp: pack_issued_def Let_def split: if_splits)
  then have "to_bytes8 (((if s then ZERO_CURRENCY_AMOUNT_HEX
                          else ZERO_CURRENCY_AMOUNT_HEX OR POS_SIGN_BIT_MASK)
                         OR push_bit 54 (e' + 97)) OR int m') = Inr b"
    using p by (auto simp: pack_issued_def Let_def split: if_splits)
  then show ?thesis using e' rng by blast
qed

lemma serial_bit_62:
  assumes "MIN_IOU_EXPONENT \<le> e" and "e \<le> MAX_IOU_EXPONENT" and "m \<le> MAX_MANTISSA"
  shows "bit (((if s then ZERO_CURRENCY_AMOUNT_HEX
                else ZERO_CURRENCY_AMOUNT_HEX OR POS_SIGN_BIT_MASK)
               OR push_bit 54 (e + 97)) OR int m) 62 = (\<not> s)"
proof -
  have z: "\<not> bit ZERO_CURRENCY_AMOUNT_HEX 62"
    by (simp add: bit_iff_odd ZERO_CURRENCY_AMOUNT_HEX_def)
  have p: "bit POS_SIGN_BIT_MASK 62"
    by (simp add: bit_iff_odd POS_SIGN_BIT_MASK_def)
  have "0 \<le> e + 97" and "e + 97 < 2 ^ 8"
    using assms by (simp_all add: MIN_IOU_EXPONENT_def MAX_IOU_EXPONENT_def)
  then have ex: "\<not> bit (push_bit 54 (e + 97)) 62"
    using not_bit_small [of "e + 97" 8] by (simp add: bit_push_bit_iff)
  have "int m < 2 ^ 62" using assms(3) by (simp add: MAX_MANTISSA_def)
  then have ma: "\<not> bit (int m) 62" using not_bit_small [of "int m" 62] by simp
  show ?thesis using z p ex ma by (simp add: bit_or_iff)
qed

lemma is_positive_issued_nonzero:
  assumes "Decimal v = Inr (Finite s c e)" and "c \<noteq> 0"
    and "serialize_issued_currency_value v = Inr b"
  shows "is_positive (Amount (b @ rest)) = Inr (\<not> s)"
proof -
  obtain m' e' where "MIN_IOU_EXPONENT \<le> e'" "e' \<le> MAX_IOU_EXPONENT" "m' \<le> MAX_MANTISSA"
    and "to_bytes8 (((if s then ZERO_CURRENCY_AMOUNT_HEX
                          else ZERO_CURRENCY_AMOUNT_HEX OR POS_SIGN_BIT_MASK)
                         OR push_bit 54 (e' + 97)) OR int m') = Inr b"
    using serialize_nonzero_Inr [OF assms] by blast
  then show ?thesis
    using is_positive_to_bytes8 [of _ b rest] serial_bit_62 [of e' m' s] by simp
qed

lemma serialize_zero:
  assumes "Decimal v = Inr d" and "is_zero d"
  shows "serialize_issued_currency_value v = Inr [0x80, 0, 0, 0, 0, 0, 0, 0]"
  using assms
  by (simp add: serialize_issued_currency_value_def verify_iou_value_def to_bytes8_zero)

lemma is_positive_native:
  assumes "serialize_xrp_amount v = Inr b"
  shows "is_positive (Amount b) = Inr True"
proof -
  obtain n where "to_bytes8 (n OR POS_SIGN_BIT_MASK) = Inr b"
    using assms
    by (cases "verify_xrp_value v"; cases "py_int v") (auto simp: serialize_xrp_amount_def)
  moreover have "bit (n OR POS_SIGN_BIT_MASK) 62"
  proof -
    have "bit POS_SIGN_BIT_MASK 62" by (simp add: bit_iff_odd POS_SIGN_BIT_MASK_def)
    then show ?thesis by (simp add: bit_or_iff)
  qed
  ultimately show ?thesis using is_positive_to_bytes8 [of _ b "[]"] by simp
qed

lemma verify_iou_value_1:
  assumes "MIN_IOU_EXPONENT \<le> e" and "e \<le> MAX_IOU_EXPONENT"
  shows "verify_iou_value (Finite False 1 e) = Inr ()"
  using assms
  by (simp add: verify_iou_value_Finite verify_no_decimal_Finite
      fix_1_15 format_f_1_15 contains_decimal_def del: One_nat_def)

lemma Decimal_0: "Decimal ''0'' = Inr (Finite False 0 0)"
  using Decimal_digits_short [of "''0''"] by (simp add: digit_eval)

lemma Decimal_1: "Decimal ''1'' = Inr (Finite False 1 0)"
  using Decimal_digits_short [of "''1''"] by (simp add: digit_eval)

lemma upscale_1_0: "upscale 1 0 = (1000000000000000, - 15)"
  by (simp add: upscale_step upscale_stop MIN_MANTISSA_def MIN_IOU_EXPONENT_def)

lemma serialize_1:
  "serialize_issued_currency_value ''1'' = Inr [0xD4, 0x83, 0x8D, 0x7E, 0xA4, 0xC6, 0x80, 0]"
proof -
  have v: "verify_iou_value (Finite False 1 0) = Inr ()"
    by (rule verify_iou_value_1) (simp_all add: num_defs)
  have d: "downscale ''1'' 1000000000000000 (- 15) = Inr (1000000000000000, - 15)"
    by (simp add: downscale_stop num_defs)
  have p: "pack_issued ''1'' False 1000000000000000 (- 15)
             = Inr [0xD4, 0x83, 0x8D, 0x7E, 0xA4, 0xC6, 0x80, 0]"
    by (simp add: pack_issued_def num_defs to_bytes8_def)
  show ?thesis
    using serialize_Finite [OF Decimal_1 _ v upscale_1_0] by (simp add: d p)
qed

lemma serialize_xrp_100:
  "serialize_xrp_amount ''100'' = Inr [0x40, 0, 0, 0, 0, 0, 0, 100]"
proof -
  have "serialize_xrp_amount ''100'' = to_bytes8 (int (int_of_digits ''100'') OR POS_SIGN_BIT_MASK)"
    by (rule serialize_xrp_amount_digits) (simp_all add: digit_eval MAX_STR_DIGITS_def)
  then show ?thesis by (simp add: digit_eval POS_SIGN_BIT_MASK_def to_bytes8_def)
qed

text \<open>
  Claim C10, as stated, has \<open>is_positive\<close> true for the issued amount encoded from
  \<open>"0"\<close>. Its value field is \<open>80 00 00 00 00 00 00 00\<close>: bit 62 is clear, and
  \<open>is_positive\<close>, which reads that bit, is false, whatever the 40 bytes of currency and
  issuer behind it.
\<close>

theorem C10_issued_zero_is_not_positive:
  "serialize_issued_currency_value ''0'' = Inr [0x80, 0, 0, 0, 0, 0, 0, 0]
   \<and> is_positive (Amount ([0x80, 0, 0, 0, 0, 0, 0, 0] @ replicate 40 0)) = Inr False"
  using serialize_zero [OF Decimal_0] by (simp add: is_zero_def is_positive_def)

text \<open>
  Claim C10, amended. \<open>is_positive\<close> is true exactly when bit 62 of the first 8 bytes is
  set, that is bit \<open>0x40\<close> of the first byte of the buffer, whatever the buffer holds; on
  an empty buffer it raises \<open>IndexError\<close>. Every amount the native encoder returns has
  the bit set. An issued amount encoded from a nonzero value has it set exactly when the
  sign of the value is not negative. The issued zero, however it was spelled, has it
  clear: \<open>is_positive\<close> is false for it. (\<open>rest\<close> stands for the bytes of currency and
  issuer that follow the value field.)
\<close>

theorem C10_is_positive:
  "is_positive (Amount (b0 # bs)) = Inr (bit b0 6)
   \<and> is_positive (Amount []) = Inl IndexError
   \<and> (serialize_xrp_amount v = Inr b \<longrightarrow> is_positive (Amount b) = Inr True)
   \<and> (Decimal v = Inr (Finite s c e) \<and> c \<noteq> 0 \<and> serialize_issued_currency_value v = Inr b
        \<longrightarrow> is_positive (Amount (b @ rest)) = Inr (\<not> s))
   \<and> (Decimal v = Inr d \<and> is_zero d \<and> serialize_issued_currency_value v = Inr b
        \<longrightarrow> is_positive (Amount (b @ rest)) = Inr False)"
proof (intro conjI impI)
  show "is_positive (Amount (b0 # bs)) = Inr (bit b0 6)"
    by (simp add: is_positive_def byte_and_0x40)
next
  show "is_positive (Amount []) = Inl IndexError" by (simp add: is_positive_def)
next
  assume "serialize_xrp_amount v = Inr b"
  then show "is_positive (Amount b) = Inr True" by (rule is_positive_native)
next
  assume "Decimal v = Inr (Finite s c e) \<and> c \<noteq> 0 \<and> serialize_issued_currency_value v = Inr b"
  then show "is_positive (Amount (b @ rest)) = Inr (\<not> s)"
    using is_positive_issued_nonzero by blast
next
  assume a: "Decimal v = Inr d \<and> is_zero d \<and> serialize_issued_currency_value v = Inr b"
  then have "b = [0x80, 0, 0, 0, 0, 0, 0, 0]" using serialize_zero [of v d] by simp
  then show "is_positive (Amount (b @ rest)) = Inr False" by (simp add: is_positive_def)
qed

theorem C10_is_positive_witness:
  "is_positive (Amount [0x40, 0, 0, 0, 0, 0, 0, 100]) = Inr True
   \<and> is_positive (Amount ([0xD4, 0x83, 0x8D, 0x7E, 0xA4, 0xC6, 0x80, 0] @ replicate 40 0)) = Inr True
   \<and> is_positive (Amount ([0x80, 0, 0, 0, 0, 0, 0, 0] @ replicate 40 0)) = Inr False
   \<and> is_positive (Amount [0, 0, 0, 0, 0, 0, 0, 100]) = Inr False
   \<and> is_positive (Amount [0x7F]) = Inr True"
proof -
  have a: "is_positive (Amount [0x40, 0, 0, 0, 0, 0, 0, 100]) = Inr True"
    using C10_is_positive [of _ _ "''100''" "[0x40, 0, 0, 0, 0, 0, 0, 100]"] serialize_xrp_100
    by blast
  have b: "is_positive (Amount ([0xD4, 0x83, 0x8D, 0x7E, 0xA4, 0xC6, 0x80, 0] @ replicate 40 0))
             = Inr (\<not> False)"
    using C10_is_positive [of _ _ "''1''" "[0xD4, 0x83, 0x8D, 0x7E, 0xA4, 0xC6, 0x80, 0]"
        False 1 0 "replicate 40 0"] serialize_1 Decimal_1
    by simp
  have z: "is_zero (Finite False 0 0)" by (simp add: is_zero_def)
  have c: "is_positive (Amount ([0x80, 0, 0, 0, 0, 0, 0, 0] @ replicate 40 0)) = Inr False"
    using C10_is_positive [of _ _ "''0''" "[0x80, 0, 0, 0, 0, 0, 0, 0]" _ _ _ "replicate 40 0"
        "Finite False 0 0"] serialize_zero [OF Decimal_0 z] Decimal_0 z
    by blast
  have d: "is_positive (Amount [0, 0, 0, 0, 0, 0, 0, 100]) = Inr (bit (0 :: byte) 6)"
    using C10_is_positive [of 0 "[0, 0, 0, 0, 0, 0, 100]"] by blast
  have e: "is_positive (Amount [0x7F]) = Inr (bit (0x7F :: byte) 6)"
    using C10_is_positive [of "0x7F" "[]"] by blast
  have f: "bit (0x7F :: byte) 6" by (simp add: bit_iff_odd)
  show ?thesis using a b c d e f by simp
qed

subsection \<open>Formatting\<close>

lemma format_f_nonneg_exp:
  assumes "0 \<le> e"
  shows "format_f (Finite s c e)
           = sign_str s @ str_nat c @ replicate (nat (if c = 0 then 0 else e)) CHR ''0''"
proof -
  have n: "0 < length (str_nat c)" by (simp add: str_nat_nonempty)
  show ?thesis
  proof (cases "c = 0 \<or> e = 0")
    case True
    then show ?thesis using n assms by (auto simp: format_f_def Let_def)
  next
    case False
    then show ?thesis using n assms by (auto simp: format_f_def Let_def)
  qed
qed

lemma format_f_no_point:
  assumes "0 \<le> e"
  shows "contains_decimal (format_f (Finite s c e))"
proof -
  have "CHR ''.'' \<notin> set (str_nat c)"
    using str_nat_digits [of c] by (auto simp: list_all_iff dest: digit_not_special(5))
  then show ?thesis
    by (simp add: format_f_nonneg_exp [OF assms] contains_decimal_def sign_str_def)
qed

lemma verify_no_decimal_ok:
  assumes "dec_fix s c 15 = Inr (Finite s' c' e')" and "0 \<le> e'"
    and "MIN_IOU_EXPONENT \<le> e" and "e \<le> MAX_IOU_EXPONENT"
  shows "verify_no_decimal (Finite s c e) = Inr ()"
  using assms(1,2) by (simp add: verify_no_decimal_Finite [OF assms(3,4)] format_f_no_point)

subsection \<open>Values with more than 16 digits\<close>

text \<open>
  The product that \<open>_verify_no_decimal\<close> computes for a coefficient of more than 16
  digits is rounded to 16 digits. It stays within \<open>Emax\<close> as long as the coefficient is
  below \<open>10\<^sup>6\<^sup>6 - 5 \<sqdot> 10\<^sup>4\<^sup>9\<close>, the first value that rounds up to \<open>10\<^sup>6\<^sup>6\<close>.
\<close>

lemma dec_fix_many_digits:
  assumes "16 < ndigits c" and "c < 10 ^ 66 - 5 * 10 ^ 49"
  shows "\<exists>c' e'. dec_fix s c 15 = Inr (Finite s c' e') \<and> 0 \<le> e'"
proof -
  define n where "n = ndigits c"
  define k where "k = n - 16"
  define q where "q = c div 10 ^ k"
  define r where "r = c mod 10 ^ k"
  define up where "up = (10 ^ k < 2 * r \<or> (2 * r = 10 ^ k \<and> odd q))"
  define coeff where "coeff = (if up then q + 1 else q)"
  define carry where "carry = (up \<and> 16 < ndigits coeff)"
  have c0: "c \<noteq> 0" using assms(1) by (cases "c = 0") (simp_all add: ndigits_lt10)
  have n16: "16 < n" using assms(1) by (simp add: n_def)
  have "c < 10 ^ 66" using assms(2) by simp
  then have n66: "n \<le> 66" unfolding n_def using ndigits_le [of c 66] c0 by simp
  have kk: "nat (int n - 16) = k" using n16 by (simp add: k_def)
  have fix_eq: "dec_fix s c 15 =
      (if 65 < (if carry then int n else int n - 1) then Inl DecimalOverflow
       else Inr (Finite s (if carry then coeff div 10 else coeff)
                   (if carry then int n else int n - 1)))"
    using c0 n16 n66
    by (simp add: dec_fix_def Let_def num_defs kk carry_def coeff_def up_def q_def r_def
        flip: n_def)
  have no: "\<not> (carry \<and> n = 66)"
  proof
    assume a: "carry \<and> n = 66"
    then have k50: "k = 50" by (simp add: k_def)
    have up: up and nd: "16 < ndigits (q + 1)" using a by (auto simp: carry_def coeff_def)
    have "10 ^ 16 \<le> q + 1" using ndigits_gt [OF nd] by simp
    then have q: "9999999999999999 \<le> q" by simp
    have "10 ^ k \<le> 2 * r" using up by (auto simp: up_def)
    then have r: "50000000000000000000000000000000000000000000000000 \<le> r"
      by (simp add: k50)
    have "c = q * 10 ^ k + r" unfolding q_def r_def by (rule div_mult_mod_eq [symmetric])
    then have "c = q * 100000000000000000000000000000000000000000000000000 + r"
      by (simp add: k50)
    then show False using q r assms(2) by simp
  qed
  show ?thesis
  proof (cases carry)
    case True
    then have "n \<le> 65" using no n66 by simp
    then show ?thesis using True by (simp add: fix_eq)
  next
    case False
    then show ?thesis using n66 n16 by (simp add: fix_eq)
  qed
qed

lemma verify_iou_value_many_digits:
  assumes "16 < ndigits c" and "c < 10 ^ 66 - 5 * 10 ^ 49"
    and "MIN_IOU_EXPONENT \<le> e" and "e \<le> MAX_IOU_EXPONENT"
  shows "verify_iou_value (Finite s c e) = Inr ()"
proof -
  have c0: "c \<noteq> 0" using assms(1) by (cases "c = 0") (simp_all add: ndigits_lt10)
  obtain c' e' where "dec_fix s c 15 = Inr (Finite s c' e')" and "0 \<le> e'"
    using dec_fix_many_digits [OF assms(1,2)] by blast
  then have "verify_no_decimal (Finite s c e) = Inr ()"
    using assms(3,4) by (rule verify_no_decimal_ok)
  then show ?thesis using verify_iou_value_Finite [OF c0 assms(3,4)] by simp
qed

text \<open>The second loop in closed form: \<open>k\<close> divisions by 10, or the overflow.\<close>

lemma downscale_trunc:
  "10 ^ 15 * 10 ^ k \<le> m \<Longrightarrow> m < 10 ^ 16 * 10 ^ k \<Longrightarrow> e + int k \<le> MAX_IOU_EXPONENT
   \<Longrightarrow> downscale v m e = Inr (m div 10 ^ k, e + int k)"
proof (induction k arbitrary: m e)
  case 0
  then show ?case by (simp add: downscale_stop MAX_MANTISSA_def)
next
  case (Suc k)
  have "(10::nat) ^ 16 \<le> 10 ^ 16 * 10 ^ k" by simp
  also have "\<dots> = 10 ^ 15 * 10 ^ Suc k" by simp
  also have "\<dots> \<le> m" by (rule Suc.prems(1))
  finally have big: "MAX_MANTISSA < m" by (simp add: MAX_MANTISSA_def)
  have small: "e < MAX_IOU_EXPONENT" using Suc.prems(3) by simp
  have lo: "10 ^ 15 * 10 ^ k \<le> m div 10"
  proof -
    have "10 ^ 15 * 10 ^ k * 10 \<le> m" using Suc.prems(1) by (simp add: mult.commute)
    then show ?thesis by (simp add: less_eq_div_iff_mult_less_eq)
  qed
  have hi: "m div 10 < 10 ^ 16 * 10 ^ k"
  proof -
    have "m < 10 ^ 16 * 10 ^ k * 10" using Suc.prems(2) by (simp add: mult.commute)
    then show ?thesis by (simp add: div_less_iff_less_mult)
  qed
  have "downscale v m e = downscale v (m div 10) (e + 1)"
    using big small by (rule downscale_step)
  also have "\<dots> = Inr (m div 10 div 10 ^ k, e + 1 + int k)"
    using Suc.IH [OF lo hi] Suc.prems(3) by simp
  finally show ?case by (simp add: div_mult2_eq)
qed

lemma downscale_overflow:
  "10 ^ 16 * 10 ^ k \<le> m \<Longrightarrow> m < 10 ^ 17 * 10 ^ k \<Longrightarrow> e \<le> MAX_IOU_EXPONENT
   \<Longrightarrow> MAX_IOU_EXPONENT < e + int (Suc k)
   \<Longrightarrow> downscale v m e = Inl (overflow_error v)"
proof (induction k arbitrary: m e)
  case 0
  then show ?case by (simp add: downscale_raise MAX_MANTISSA_def)
next
  case (Suc k)
  have "(10::nat) ^ 16 \<le> 10 ^ 16 * 10 ^ Suc k" by simp
  also have "\<dots> \<le> m" by (rule Suc.prems(1))
  finally have big: "MAX_MANTISSA < m" by (simp add: MAX_MANTISSA_def)
  show ?case
  proof (cases "MAX_IOU_EXPONENT \<le> e")
    case True
    then show ?thesis using big by (simp add: downscale_raise)
  next
    case False
    have lo: "10 ^ 16 * 10 ^ k \<le> m div 10"
    proof -
      have "10 ^ 16 * 10 ^ k * 10 \<le> m" using Suc.prems(1) by (simp add: mult.commute)
      then show ?thesis by (simp add: less_eq_div_iff_mult_less_eq)
    qed
    have hi: "m div 10 < 10 ^ 17 * 10 ^ k"
    proof -
      have "m < 10 ^ 17 * 10 ^ k * 10" using Suc.prems(2) by (simp add: mult.commute)
      then show ?thesis by (simp add: div_less_iff_less_mult)
    qed
    have "downscale v m e = downscale v (m div 10) (e + 1)"
      using big False by (simp add: downscale_step)
    also have "\<dots> = Inl (overflow_error v)"
      using Suc.IH [OF lo hi] False Suc.prems(4) by simp
    finally show ?thesis .
  qed
qed

lemma to_bytes8_ok:
  assumes "0 \<le> n" and "n < 2 ^ 64"
  shows "\<exists>b. to_bytes8 n = Inr b \<and> length b = 8"
  using assms by (simp add: to_bytes8_def)

lemma serial_range:
  assumes "MIN_IOU_EXPONENT \<le> e" and "e \<le> MAX_IOU_EXPONENT" and "m \<le> MAX_MANTISSA"
  shows "0 \<le> ((if s then ZERO_CURRENCY_AMOUNT_HEX
                else ZERO_CURRENCY_AMOUNT_HEX OR POS_SIGN_BIT_MASK)
               OR push_bit 54 (e + 97)) OR int m"
    and "((if s then ZERO_CURRENCY_AMOUNT_HEX
                else ZERO_CURRENCY_AMOUNT_HEX OR POS_SIGN_BIT_MASK)
               OR push_bit 54 (e + 97)) OR int m < 2 ^ 64"
proof -
  have e0: "0 \<le> e + 97" and e1: "e + 97 < 256"
    using assms by (simp_all add: MIN_IOU_EXPONENT_def MAX_IOU_EXPONENT_def)
  have p0: "0 \<le> push_bit 54 (e + 97)" using e0 by simp
  have "push_bit 54 (e + 97) < 256 * 2 ^ 54" using e1 by (simp add: push_bit_eq_mult)
  then have p1: "push_bit 54 (e + 97) < 2 ^ 64" by simp
  have m1: "int m < 2 ^ 64" using assms(3) by (simp add: MAX_MANTISSA_def)
  define a where "a = (if s then ZERO_CURRENCY_AMOUNT_HEX
                else ZERO_CURRENCY_AMOUNT_HEX OR POS_SIGN_BIT_MASK)"
  have a0: "0 \<le> a" and a1: "a < 2 ^ 64"
    by (simp_all add: a_def ZERO_CURRENCY_AMOUNT_HEX_def POS_SIGN_BIT_MASK_def)
  have b0: "0 \<le> a OR push_bit 54 (e + 97)" using a0 p0 by simp
  have b1: "a OR push_bit 54 (e + 97) < 2 ^ 64" using a0 a1 p1 by (rule OR_upper)
  show "0 \<le> ((if s then ZERO_CURRENCY_AMOUNT_HEX
                else ZERO_CURRENCY_AMOUNT_HEX OR POS_SIGN_BIT_MASK)
               OR push_bit 54 (e + 97)) OR int m"
    using b0 by (simp flip: a_def)
  show "((if s then ZERO_CURRENCY_AMOUNT_HEX
                else ZERO_CURRENCY_AMOUNT_HEX OR POS_SIGN_BIT_MASK)
               OR push_bit 54 (e + 97)) OR int m < 2 ^ 64"
    using OR_upper [OF b0 b1 m1] by (simp flip: a_def)
qed

lemma pack_issued_in_range:
  assumes "MIN_IOU_EXPONENT \<le> e" and "e \<le> MAX_IOU_EXPONENT" and "m \<le> MAX_MANTISSA"
  shows "pack_issued v s m e =
           to_bytes8 (((if s then ZERO_CURRENCY_AMOUNT_HEX
                        else ZERO_CURRENCY_AMOUNT_HEX OR POS_SIGN_BIT_MASK)
                       OR push_bit 54 (e + 97)) OR int m)"
    and "\<exists>b. pack_issued v s m e = Inr b \<and> length b = 8"
proof -
  show eq: "pack_issued v s m e =
           to_bytes8 (((if s then ZERO_CURRENCY_AMOUNT_HEX
                        else ZERO_CURRENCY_AMOUNT_HEX OR POS_SIGN_BIT_MASK)
                       OR push_bit 54 (e + 97)) OR int m)"
    using assms by (simp add: pack_issued_def Let_def)
  show "\<exists>b. pack_issued v s m e = Inr b \<and> length b = 8"
    unfolding eq using serial_range [OF assms] by (rule to_bytes8_ok)
qed

subsection \<open>Truncation and overflow\<close>

lemma many_digits_bounds:
  assumes "16 < ndigits c"
  shows "10 ^ 15 * 10 ^ (ndigits c - 16) \<le> c" and "c < 10 ^ 16 * 10 ^ (ndigits c - 16)"
    and "c \<noteq> 0"
proof -
  show c0: "c \<noteq> 0" using assms by (cases "c = 0") (simp_all add: ndigits_lt10)
  have "ndigits c - 1 = 15 + (ndigits c - 16)" and "ndigits c = 16 + (ndigits c - 16)"
    using assms by simp_all
  then have a: "(10::nat) ^ (ndigits c - 1) = 10 ^ 15 * 10 ^ (ndigits c - 16)"
    and b: "(10::nat) ^ ndigits c = 10 ^ 16 * 10 ^ (ndigits c - 16)"
    by (metis power_add)+
  show "10 ^ 15 * 10 ^ (ndigits c - 16) \<le> c" using ndigits_lower [OF c0] a by simp
  show "c < 10 ^ 16 * 10 ^ (ndigits c - 16)" using ndigits_upper [of c] b by simp
qed

lemma serialize_many_digits:
  assumes "Decimal v = Inr (Finite s c e)"
    and "16 < ndigits c" and "c < 10 ^ 66 - 5 * 10 ^ 49"
    and "MIN_IOU_EXPONENT \<le> e" and "e + int (ndigits c - 16) \<le> MAX_IOU_EXPONENT"
  shows "serialize_issued_currency_value v =
           pack_issued v s (c div 10 ^ (ndigits c - 16)) (e + int (ndigits c - 16))"
    and "c div 10 ^ (ndigits c - 16) \<le> MAX_MANTISSA"
proof -
  let ?k = "ndigits c - 16"
  note b = many_digits_bounds [OF assms(2)]
  have e80: "e \<le> MAX_IOU_EXPONENT" using assms(5) by simp
  have ver: "verify_iou_value (Finite s c e) = Inr ()"
    using verify_iou_value_many_digits [OF assms(2,3,4) e80] .
  have "(10::nat) ^ 15 \<le> 10 ^ 15 * 10 ^ ?k" by simp
  also have "\<dots> \<le> c" by (rule b(1))
  finally have "MIN_MANTISSA \<le> c" by (simp add: MIN_MANTISSA_def)
  then have up: "upscale c e = (c, e)" by (simp add: upscale_stop)
  have down: "downscale v c e = Inr (c div 10 ^ ?k, e + int ?k)"
    using downscale_trunc [OF b(1,2) assms(5)] .
  show "serialize_issued_currency_value v = pack_issued v s (c div 10 ^ ?k) (e + int ?k)"
    using serialize_Finite [OF assms(1) b(3) ver up] by (simp add: down)
  have "c div 10 ^ ?k < 10 ^ 16" using b(2) by (simp add: div_less_iff_less_mult mult.commute)
  then show "c div 10 ^ ?k \<le> MAX_MANTISSA" by (simp add: MAX_MANTISSA_def)
qed

text \<open>
  Below that bound the value is serialised, and no error is raised: the mantissa packed
  is the coefficient divided by 10 as often as it has digits beyond 16, each time
  rounding toward zero, and the exponent grows by the number of divisions.
\<close>

lemma serialize_truncates:
  assumes "Decimal v = Inr (Finite s c e)"
    and "16 < ndigits c" and "c < 10 ^ 66 - 5 * 10 ^ 49"
    and "MIN_IOU_EXPONENT \<le> e" and "e + int (ndigits c - 16) \<le> MAX_IOU_EXPONENT"
  shows "serialize_issued_currency_value v =
           to_bytes8 (((if s then ZERO_CURRENCY_AMOUNT_HEX
                        else ZERO_CURRENCY_AMOUNT_HEX OR POS_SIGN_BIT_MASK)
                       OR push_bit 54 (e + int (ndigits c - 16) + 97))
                      OR int (c div 10 ^ (ndigits c - 16)))
         \<and> (\<exists>b. serialize_issued_currency_value v = Inr b \<and> length b = 8)"
proof -
  note ser = serialize_many_digits [OF assms]
  have lo: "MIN_IOU_EXPONENT \<le> e + int (ndigits c - 16)" using assms(4) by simp
  show ?thesis
    using pack_issued_in_range [OF lo assms(5) ser(2), of v s] by (simp add: ser(1))
qed

text \<open>
  For instance \<open>19999999999999999\<close>, with 17 digits, is packed with the mantissa
  \<open>1999999999999999\<close> and the exponent 1: truncated, not rounded to the nearest.
\<close>

lemma serialize_truncates_17_digits:
  "serialize_issued_currency_value ''19999999999999999''
     = Inr [0xD8, 0x87, 0x1A, 0xFD, 0x49, 0x8C, 0xFF, 0xFF]
   \<and> from_bytes [0x07, 0x1A, 0xFD, 0x49, 0x8C, 0xFF, 0xFF] = 1999999999999999"
proof -
  have d: "Decimal ''19999999999999999'' = Inr (Finite False 19999999999999999 0)"
    using Decimal_digits_short [of "''19999999999999999''"] by (simp add: digit_eval)
  have nd: "ndigits 19999999999999999 = 17"
    using ndigits_eqI [of 16 19999999999999999] by simp
  have "serialize_issued_currency_value ''19999999999999999''
      = to_bytes8 (0xC000000000000000 OR push_bit 54 98 OR 1999999999999999)"
    using serialize_truncates [OF d] by (simp add: nd num_defs)
  then have "serialize_issued_currency_value ''19999999999999999''
      = Inr [0xD8, 0x87, 0x1A, 0xFD, 0x49, 0x8C, 0xFF, 0xFF]"
    by (simp add: to_bytes8_def)
  moreover have "from_bytes [0x07, 0x1A, 0xFD, 0x49, 0x8C, 0xFF, 0xFF] = 1999999999999999"
    by (simp add: from_bytes_def)
  ultimately show ?thesis by simp
qed

text \<open>
  Claim C6. A value with more than 16 significant digits whose exponent stays within
  -96 and 80 during downscaling should be serialised with a truncated mantissa, and not
  be refused. The loop does truncate a mantissa of any length, and \<open>verify_iou_value\<close>
  is documented to raise \<open>XRPLBinaryCodecException\<close> only. But the integer written
  with a 1 and 66 zeros, which has 67 digits and exponent 0 (downscaling would take it
  to 51), does not reach the loop: \<open>_verify_no_decimal\<close> multiplies it by \<open>10\<^sup>1\<^sup>5\<close> in
  a context with \<open>Emax = 80\<close>, and the product \<open>10\<^sup>8\<^sup>1\<close> raises \<open>decimal.Overflow\<close>.
\<close>

theorem C6_sixty_seven_digits_raise:
  "Decimal ''1000000000000000000000000000000000000000000000000000000000000000000''
     = Inr (Finite False (10 ^ 66) 0)
   \<and> serialize_issued_currency_value
       ''1000000000000000000000000000000000000000000000000000000000000000000''
     = Inl DecimalOverflow"
proof -
  let ?v = "''1000000000000000000000000000000000000000000000000000000000000000000''"
  let ?n = "1000000000000000000000000000000000000000000000000000000000000000000 :: nat"
  have d: "Decimal ?v = Inr (Finite False ?n 0)"
    using Decimal_digits_short [of ?v] by (simp add: digit_eval)
  have nd: "ndigits ?n = 67" using ndigits_eqI [of 66 ?n] by simp
  have fx: "dec_fix False ?n 15 = Inl DecimalOverflow"
    by (simp add: dec_fix_def nd num_defs)
  have "verify_iou_value (Finite False ?n 0) = Inl DecimalOverflow"
    by (simp add: verify_iou_value_Finite verify_no_decimal_Finite fx num_defs)
  then have "serialize_issued_currency_value ?v = Inl DecimalOverflow"
    by (simp add: serialize_issued_currency_value_def d)
  then show ?thesis using d by simp
qed

subsection \<open>Zero, and the overflow paths\<close>

lemma Decimal_0_0: "Decimal ''0.0'' = Inr (Finite False 0 (- 1))"
  by (simp add: Decimal_def strip_def is_space_def digit_eval lim_defs ndigits_lt10)

lemma Decimal_m0: "Decimal ''-0'' = Inr (Finite True 0 0)"
  by (simp add: Decimal_def strip_def is_space_def digit_eval lim_defs ndigits_lt10)

lemma Decimal_0_e_max:
  "Decimal ''0e999999999999999999'' = Inr (Finite False 0 999999999999999999)"
  by (simp add: Decimal_def strip_def is_space_def digit_eval signed_def lim_defs ndigits_lt10)

text \<open>
  Claim C8, as stated, has every string whose value is zero serialised to the canonical
  zero. The string \<open>"0e1000000000000000000"\<close> is zero times a power of ten, but its
  exponent \<open>10\<^sup>1\<^sup>8\<close> is beyond what the decimal library holds (\<open>MAX_EMAX\<close> is
  \<open>10\<^sup>1\<^sup>8 - 1\<close>): under the module's context, which traps \<open>InvalidOperation\<close>,
  \<open>Decimal\<close> raises it on line 154, and no byte is produced.
\<close>

theorem C8_zero_beyond_exponent_limit:
  "Decimal ''0e1000000000000000000'' = Inl InvalidOperation
   \<and> serialize_issued_currency_value ''0e1000000000000000000'' = Inl InvalidOperation"
proof -
  have "Decimal ''0e1000000000000000000'' = Inl InvalidOperation"
    by (simp add: Decimal_def strip_def is_space_def digit_eval signed_def lim_defs ndigits_lt10)
  then show ?thesis by (simp add: serialize_issued_currency_value_def)
qed

text \<open>
  Claim C8, amended. Whatever string is given, if the library accepts it and reads it as
  a zero (\<open>"0"\<close>, \<open>"0.0"\<close>, \<open>"-0"\<close>, with any sign, and any exponent within the
  library's limits, such as \<open>"0e999999999999999999"\<close>), the value field is
  \<open>80 00 00 00 00 00 00 00\<close>: only bit 63 is set.
\<close>

theorem C8_zero_canonical_form:
  assumes "Decimal v = Inr d" and "is_zero d"
  shows "serialize_issued_currency_value v = Inr [0x80, 0, 0, 0, 0, 0, 0, 0]"
  using assms by (rule serialize_zero)

theorem C8_zero_canonical_form_witness:
  "serialize_issued_currency_value ''0'' = Inr [0x80, 0, 0, 0, 0, 0, 0, 0]
   \<and> serialize_issued_currency_value ''0.0'' = Inr [0x80, 0, 0, 0, 0, 0, 0, 0]
   \<and> serialize_issued_currency_value ''-0'' = Inr [0x80, 0, 0, 0, 0, 0, 0, 0]
   \<and> serialize_issued_currency_value ''0e999999999999999999''
       = Inr [0x80, 0, 0, 0, 0, 0, 0, 0]"
proof -
  have "is_zero (Finite False 0 0)" and "is_zero (Finite False 0 (- 1))"
    and "is_zero (Finite True 0 0)" and "is_zero (Finite False 0 999999999999999999)"
    by (simp_all add: is_zero_def)
  then show ?thesis
    using C8_zero_canonical_form [OF Decimal_0] C8_zero_canonical_form [OF Decimal_0_0]
      C8_zero_canonical_form [OF Decimal_m0] C8_zero_canonical_form [OF Decimal_0_e_max]
    by simp
qed

lemma downscale_iter:
  "(\<forall>i<j. MAX_MANTISSA < m div 10 ^ i \<and> e + int i < MAX_IOU_EXPONENT)
   \<Longrightarrow> downscale v m e = downscale v (m div 10 ^ j) (e + int j)"
proof (induction j)
  case 0
  then show ?case by simp
next
  case (Suc j)
  have "downscale v m e = downscale v (m div 10 ^ j) (e + int j)"
    using Suc by simp
  also have "\<dots> = downscale v (m div 10 ^ j div 10) (e + int j + 1)"
    using Suc.prems by (simp add: downscale_step)
  also have "m div 10 ^ j div 10 = m div 10 ^ Suc j"
    by (metis div_mult2_eq mult.commute power_Suc)
  also have "e + int j + 1 = e + int (Suc j)" by simp
  finally show ?case .
qed

lemma pack_issued_overflow:
  assumes "MAX_IOU_EXPONENT < e \<or> MAX_MANTISSA < m"
  shows "pack_issued v s m e = Inl (overflow_error v)"
  using assms by (auto simp: pack_issued_def Let_def)

text \<open>
  Claim C9. When the second loop, after \<open>j\<close> rounds, finds a mantissa above
  \<open>10\<^sup>1\<^sup>6 - 1\<close> with an exponent of 80 or more, it raises the overflow error. After the
  loops, an exponent above 80 or a mantissa above \<open>10\<^sup>1\<^sup>6 - 1\<close> raises it as well. In
  both cases the error is the result of the serialisation: no bytes are returned.
\<close>

theorem C9_overflow:
  "((\<forall>i<j. MAX_MANTISSA < m div 10 ^ i \<and> e + int i < MAX_IOU_EXPONENT)
       \<and> MAX_MANTISSA < m div 10 ^ j \<and> MAX_IOU_EXPONENT \<le> e + int j
     \<longrightarrow> downscale v m e = Inl (overflow_error v))
   \<and> (MAX_IOU_EXPONENT < e \<or> MAX_MANTISSA < m
     \<longrightarrow> pack_issued v s m e = Inl (overflow_error v))
   \<and> (Decimal v = Inr (Finite s c e0) \<and> c \<noteq> 0 \<and> verify_iou_value (Finite s c e0) = Inr ()
       \<and> upscale c e0 = (m, e)
       \<and> (downscale v m e = Inl (overflow_error v)
          \<or> (\<exists>m' e'. downscale v m e = Inr (m', e')
                \<and> pack_issued v s m' e' = Inl (overflow_error v)))
     \<longrightarrow> serialize_issued_currency_value v = Inl (overflow_error v))"
proof (intro conjI impI)
  assume a: "(\<forall>i<j. MAX_MANTISSA < m div 10 ^ i \<and> e + int i < MAX_IOU_EXPONENT)
       \<and> MAX_MANTISSA < m div 10 ^ j \<and> MAX_IOU_EXPONENT \<le> e + int j"
  then have "downscale v m e = downscale v (m div 10 ^ j) (e + int j)"
    using downscale_iter by blast
  then show "downscale v m e = Inl (overflow_error v)" using a by (simp add: downscale_raise)
next
  assume "MAX_IOU_EXPONENT < e \<or> MAX_MANTISSA < m"
  then show "pack_issued v s m e = Inl (overflow_error v)" by (rule pack_issued_overflow)
next
  assume a: "Decimal v = Inr (Finite s c e0) \<and> c \<noteq> 0
       \<and> verify_iou_value (Finite s c e0) = Inr ()
       \<and> upscale c e0 = (m, e)
       \<and> (downscale v m e = Inl (overflow_error v)
          \<or> (\<exists>m' e'. downscale v m e = Inr (m', e')
                \<and> pack_issued v s m' e' = Inl (overflow_error v)))"
  then have "serialize_issued_currency_value v =
           bind (downscale v m e) (\<lambda>(m', e'). pack_issued v s m' e')"
    using serialize_Finite by blast
  then show "serialize_issued_currency_value v = Inl (overflow_error v)" using a by auto
qed

lemma Decimal_17_digits_e80:
  "Decimal ''12345678901234567e80'' = Inr (Finite False 12345678901234567 80)"
  by (simp add: Decimal_def strip_def is_space_def digit_eval signed_def lim_defs
      ndigits_lt10 ndigits_ge10)

theorem C9_overflow_witness:
  "downscale ''123456789012345678e79'' 123456789012345678 79
     = Inl (overflow_error ''123456789012345678e79'')
   \<and> pack_issued ''1e81'' False 1000000000000000 81 = Inl (overflow_error ''1e81'')
   \<and> serialize_issued_currency_value ''12345678901234567e80''
     = Inl (XRPLBinaryCodecException
              ''Amount overflow in issued currency value 12345678901234567e80'')"
proof -
  have a: "downscale ''123456789012345678e79'' 123456789012345678 79
     = Inl (overflow_error ''123456789012345678e79'')"
    using C9_overflow [of 1 123456789012345678 79 "''123456789012345678e79''"]
    by (simp add: num_defs)
  have b: "pack_issued ''1e81'' False 1000000000000000 81 = Inl (overflow_error ''1e81'')"
    using C9_overflow [of _ 1000000000000000 81 "''1e81''" False]
    by (simp add: num_defs)
  have nd: "ndigits 12345678901234567 = 17"
    using ndigits_eqI [of 16 12345678901234567] by simp
  have ver: "verify_iou_value (Finite False 12345678901234567 80) = Inr ()"
    by (rule verify_iou_value_many_digits) (simp_all add: nd num_defs)
  have up: "upscale 12345678901234567 80 = (12345678901234567, 80)"
    by (simp add: upscale_stop num_defs)
  have dn: "downscale ''12345678901234567e80'' 12345678901234567 80
      = Inl (overflow_error ''12345678901234567e80'')"
    by (simp add: downscale_raise num_defs)
  have c: "serialize_issued_currency_value ''12345678901234567e80''
     = Inl (overflow_error ''12345678901234567e80'')"
    using C9_overflow [of 0 12345678901234567 80 "''12345678901234567e80''" False
        12345678901234567 80] Decimal_17_digits_e80 ver up dn
    by simp
  show ?thesis using a b c by (simp add: overflow_error_def)
qed

subsection \<open>Rendering an issued value\<close>

lemma Decimal_str_nat:
  assumes "ndigits n \<le> MAX_PREC"
  shows "Decimal (str_nat n) = Inr (Finite False n 0)"
  using Decimal_digits [OF str_nat_nonempty str_nat_digits, of n] assms
  by (simp add: int_of_digits_str_nat)

lemma Decimal_minus_str_nat:
  assumes "ndigits n \<le> MAX_PREC"
  shows "Decimal (CHR ''-'' # str_nat n) = Inr (Finite True n 0)"
proof -
  let ?s = "CHR ''-'' # str_nat n"
  have "strip ?s = ?s"
    using str_nat_last [of n]
    by (intro strip_id) (simp_all add: str_nat_nonempty digit_not_special, simp add: is_space_def)
  moreover have "in_limits n 0" using assms by (auto simp: lim_defs)
  ultimately show ?thesis
    using str_nat_digits [of n]
    by (simp add: Decimal_def digits_filter digits_takeWhile str_nat_nonempty
        int_of_digits_str_nat)
qed

lemma ndigits_10_15: "ndigits 1000000000000000 = 16"
  using ndigits_eqI [of 15 1000000000000000] by simp

lemma str_nat_10_15: "str_nat 1000000000000000 = ''1000000000000000''"
  by (simp add: str_eval)

lemma verify_iou_10_15:
  assumes "MIN_IOU_EXPONENT \<le> e" and "e \<le> MAX_IOU_EXPONENT"
  shows "verify_iou_value (Finite False 1000000000000000 e) = Inr ()"
proof -
  have "dec_fix False 1000000000000000 15 = Inr (Finite False 1000000000000000 15)"
    by (simp add: dec_fix_def ndigits_10_15 num_defs)
  then have "verify_no_decimal (Finite False 1000000000000000 e) = Inr ()"
    using _ assms by (rule verify_no_decimal_ok) simp
  then show ?thesis using verify_iou_value_Finite [OF _ assms] by simp
qed

lemma issued_value_str_1e16:
  "issued_value_str [0xD8, 0x83, 0x8D, 0x7E, 0xA4, 0xC6, 0x80, 0] = Inr ''1.000000000000000E+16''"
proof -
  have m: "uint ((0x83 :: byte) AND 0x3F) * 256 ^ length [0x8D, 0x7E, 0xA4, 0xC6, 0x80, 0 :: byte]
             + from_bytes [0x8D, 0x7E, 0xA4, 0xC6, 0x80, 0] = 1000000000000000"
    by (simp add: from_bytes_def)
  have e: "push_bit 2 (uint ((0xD8 :: byte) AND 0x3F)) + drop_bit 6 (uint ((0x83 :: byte) AND 0xFF)) - 97
             = (1 :: int)"
    by (simp add: push_bit_eq_mult drop_bit_eq_div)
  have a: "Decimal (str_int 1000000000000000) = Inr (Finite False 1000000000000000 0)"
    using Decimal_str_nat [of 1000000000000000]
    by (simp add: str_int_def ndigits_10_15 MAX_PREC_def)
  have f: "dec_fix False 1000000000000000 1 = Inr (Finite False 1000000000000000 1)"
    by (simp add: dec_fix_def ndigits_10_15 num_defs)
  have v: "verify_iou_value (Finite False 1000000000000000 1) = Inr ()"
    by (rule verify_iou_10_15) (simp_all add: num_defs)
  have s: "dec_str (Finite False 1000000000000000 1) = ''1.000000000000000E+16''"
    by (simp add: dec_str_def str_nat_10_15 sign_str_def fmt_plus_d_def str_eval)
  have r: "rstrip CHR ''.'' (rstrip CHR ''0'' ''1.000000000000000E+16'') = ''1.000000000000000E+16''"
    by (simp add: rstrip_def)
  show ?thesis
    unfolding issued_value_str_def list.case Let_def m e
    by (simp add: a Decimal_1e_Cons MIN_ETINY_def MAX_EMAX_def dec_mul_def f v is_zero_def s r
        del: One_nat_def)
qed

lemma issued_value_str_1e15:
  "issued_value_str [0xD8, 0x43, 0x8D, 0x7E, 0xA4, 0xC6, 0x80, 0] = Inr ''1''"
proof -
  have m: "uint ((0x43 :: byte) AND 0x3F) * 256 ^ length [0x8D, 0x7E, 0xA4, 0xC6, 0x80, 0 :: byte]
             + from_bytes [0x8D, 0x7E, 0xA4, 0xC6, 0x80, 0] = 1000000000000000"
    by (simp add: from_bytes_def)
  have e: "push_bit 2 (uint ((0xD8 :: byte) AND 0x3F)) + drop_bit 6 (uint ((0x43 :: byte) AND 0xFF)) - 97
             = (0 :: int)"
    by (simp add: push_bit_eq_mult drop_bit_eq_div)
  have a: "Decimal (str_int 1000000000000000) = Inr (Finite False 1000000000000000 0)"
    using Decimal_str_nat [of 1000000000000000]
    by (simp add: str_int_def ndigits_10_15 MAX_PREC_def)
  have f: "dec_fix False 1000000000000000 0 = Inr (Finite False 1000000000000000 0)"
    by (simp add: dec_fix_def ndigits_10_15 num_defs)
  have v: "verify_iou_value (Finite False 1000000000000000 0) = Inr ()"
    by (rule verify_iou_10_15) (simp_all add: num_defs)
  have s: "dec_str (Finite False 1000000000000000 0) = ''1000000000000000''"
    by (simp add: dec_str_def str_nat_10_15 sign_str_def)
  have r: "rstrip CHR ''.'' (rstrip CHR ''0'' ''1000000000000000'') = ''1''"
    by (simp add: rstrip_def)
  show ?thesis
    unfolding issued_value_str_def list.case Let_def m e
    by (simp add: a Decimal_1e_Cons MIN_ETINY_def MAX_EMAX_def dec_mul_def f v is_zero_def s r
        del: One_nat_def)
qed

lemma serialize_1e16:
  "serialize_issued_currency_value ''1e16'' = Inr [0xD8, 0x83, 0x8D, 0x7E, 0xA4, 0xC6, 0x80, 0]"
proof -
  have d: "Decimal ''1e16'' = Inr (Finite False 1 16)"
    using Decimal_1e [of 16] by (simp add: str_eval MIN_ETINY_def MAX_EMAX_def)
  have v: "verify_iou_value (Finite False 1 16) = Inr ()"
    by (rule verify_iou_value_1) (simp_all add: num_defs)
  have u: "upscale 1 16 = (1000000000000000, 1)"
    by (simp add: upscale_step upscale_stop MIN_MANTISSA_def MIN_IOU_EXPONENT_def)
  have dn: "downscale ''1e16'' 1000000000000000 1 = Inr (1000000000000000, 1)"
    by (simp add: downscale_stop num_defs)
  have p: "pack_issued ''1e16'' False 1000000000000000 1
             = Inr [0xD8, 0x83, 0x8D, 0x7E, 0xA4, 0xC6, 0x80, 0]"
    by (simp add: pack_issued_def num_defs to_bytes8_def)
  show ?thesis using serialize_Finite [OF d _ v u] by (simp add: dn p)
qed

lemma serialize_1e15:
  "serialize_issued_currency_value ''1e15'' = Inr [0xD8, 0x43, 0x8D, 0x7E, 0xA4, 0xC6, 0x80, 0]"
proof -
  have d: "Decimal ''1e15'' = Inr (Finite False 1 15)"
    using Decimal_1e [of 15] by (simp add: str_eval MIN_ETINY_def MAX_EMAX_def)
  have v: "verify_iou_value (Finite False 1 15) = Inr ()"
    by (rule verify_iou_value_1) (simp_all add: num_defs)
  have u: "upscale 1 15 = (1000000000000000, 0)"
    by (simp add: upscale_step upscale_stop MIN_MANTISSA_def MIN_IOU_EXPONENT_def)
  have dn: "downscale ''1e15'' 1000000000000000 0 = Inr (1000000000000000, 0)"
    by (simp add: downscale_stop num_defs)
  have p: "pack_issued ''1e15'' False 1000000000000000 0
             = Inr [0xD8, 0x43, 0x8D, 0x7E, 0xA4, 0xC6, 0x80, 0]"
    by (simp add: pack_issued_def num_defs to_bytes8_def)
  show ?thesis using serialize_Finite [OF d _ v u] by (simp add: dn p)
qed

lemma to_json_issued:
  assumes "length vb = 8" and "length cb = 20" and "length ib = 20"
    and "hd vb AND 0x80 \<noteq> 0" and "issued_value_str vb = Inr x"
  shows "to_json (Amount (vb @ cb @ ib)) = Inr (JAmount x cb ib)"
proof -
  obtain b bs where vb: "vb = b # bs" using assms(1) by (cases vb) auto
  show ?thesis
    using assms by (simp add: to_json_def is_native_def read_def vb)
qed

text \<open>
  Claim C5. The \<open>value\<close> of an issued amount should be rendered as the shortest exact
  decimal string: the amount encoded from \<open>"1e16"\<close> as \<open>10000000000000000\<close>. \<open>to_json\<close>
  takes \<open>str\<close> of the decimal and strips zeros and a point from its right end. For
  \<open>"1e16"\<close> the decimal has 16 digits and exponent 1, \<open>str\<close> gives scientific notation,
  and the result is \<open>1.000000000000000E+16\<close>. For \<open>"1e15"\<close>, \<open>str\<close> gives
  \<open>1000000000000000\<close>, and stripping the zeros leaves \<open>1\<close>. (The 40 zero bytes stand
  for a currency and an issuer.)
\<close>

theorem C5_issued_value_rendering:
  "serialize_issued_currency_value ''1e16'' = Inr [0xD8, 0x83, 0x8D, 0x7E, 0xA4, 0xC6, 0x80, 0]
   \<and> to_json (Amount ([0xD8, 0x83, 0x8D, 0x7E, 0xA4, 0xC6, 0x80, 0]
                       @ replicate 20 0 @ replicate 20 0))
       = Inr (JAmount ''1.000000000000000E+16'' (replicate 20 0) (replicate 20 0))
   \<and> serialize_issued_currency_value ''1e15'' = Inr [0xD8, 0x43, 0x8D, 0x7E, 0xA4, 0xC6, 0x80, 0]
   \<and> to_json (Amount ([0xD8, 0x43, 0x8D, 0x7E, 0xA4, 0xC6, 0x80, 0]
                       @ replicate 20 0 @ replicate 20 0))
       = Inr (JAmount ''1'' (replicate 20 0) (replicate 20 0))"
proof -
  have a: "to_json (Amount ([0xD8, 0x83, 0x8D, 0x7E, 0xA4, 0xC6, 0x80, 0]
                       @ replicate 20 0 @ replicate 20 0))
       = Inr (JAmount ''1.000000000000000E+16'' (replicate 20 0) (replicate 20 0))"
    by (rule to_json_issued [OF _ _ _ _ issued_value_str_1e16]) simp_all
  have b: "to_json (Amount ([0xD8, 0x43, 0x8D, 0x7E, 0xA4, 0xC6, 0x80, 0]
                       @ replicate 20 0 @ replicate 20 0))
       = Inr (JAmount ''1'' (replicate 20 0) (replicate 20 0))"
    by (rule to_json_issued [OF _ _ _ _ issued_value_str_1e15]) simp_all
  show ?thesis using a b serialize_1e16 serialize_1e15 by simp
qed

subsection \<open>The round trip of a native digit string\<close>

lemma from_bytes_foldl:
  "foldl (\<lambda>acc b. acc * 256 + uint (b :: byte)) acc bs
     = acc * 256 ^ length bs + foldl (\<lambda>acc b. acc * 256 + uint b) 0 bs"
proof (induction bs arbitrary: acc)
  case Nil
  then show ?case by simp
next
  case (Cons b bs)
  let ?f = "\<lambda>acc b. acc * 256 + uint (b :: byte)"
  have "foldl ?f (acc * 256 + uint b) bs
      = (acc * 256 + uint b) * 256 ^ length bs + foldl ?f 0 bs"
    by (rule Cons.IH)
  moreover have "foldl ?f (0 * 256 + uint b) bs
      = (0 * 256 + uint b) * 256 ^ length bs + foldl ?f 0 bs"
    by (rule Cons.IH)
  ultimately show ?case by (simp add: algebra_simps)
qed

lemma from_bytes_Cons: "from_bytes (b # bs) = uint b * 256 ^ length bs + from_bytes bs"
  using from_bytes_foldl [of "uint b" bs] by (simp add: from_bytes_def)

lemma from_bytes_big_endian:
  "from_bytes (map (\<lambda>k. word_of_int (n div 2 ^ (8 * k)) :: byte) (rev [0..<m])) = n mod 2 ^ (8 * m)"
proof (induction m)
  case 0
  then show ?case by (simp add: from_bytes_def)
next
  case (Suc m)
  let ?g = "\<lambda>k. word_of_int (n div 2 ^ (8 * k)) :: byte"
  have u: "uint (?g m) = n div 2 ^ (8 * m) mod 256"
    by (simp add: uint_word_of_int_eq take_bit_eq_mod)
  have p: "(256 :: int) ^ m = 2 ^ (8 * m)" by (simp add: power_mult)
  have e: "(2 :: int) ^ (8 * Suc m) = 2 ^ (8 * m) * 256" by (simp add: power_add)
  have "from_bytes (map ?g (rev [0..<Suc m]))
      = uint (?g m) * 256 ^ m + from_bytes (map ?g (rev [0..<m]))"
    by (simp add: from_bytes_Cons)
  also have "\<dots> = n div 2 ^ (8 * m) mod 256 * 2 ^ (8 * m) + n mod 2 ^ (8 * m)"
    by (simp only: u p Suc.IH)
  also have "\<dots> = 2 ^ (8 * m) * (n div 2 ^ (8 * m) mod 256) + n mod 2 ^ (8 * m)"
    by (simp only: mult.commute)
  also have "\<dots> = n mod (2 ^ (8 * m) * 256)"
    by (rule zmod_zmult2_eq [symmetric]) simp
  also have "\<dots> = n mod 2 ^ (8 * Suc m)"
    by (simp only: e)
  finally show ?case .
qed

lemma from_bytes_to_bytes8:
  assumes "to_bytes8 n = Inr b"
  shows "from_bytes b = n"
proof -
  let ?g = "\<lambda>k. word_of_int (n div 2 ^ (8 * k)) :: byte"
  have r: "0 \<le> n" "n < 2 ^ 64" and b: "b = map ?g [7, 6, 5, 4, 3, 2, 1, 0]"
    using assms by (auto simp: to_bytes8_def split: if_splits)
  have l: "rev [0..<8] = [7, 6, 5, 4, 3, 2, 1, 0 :: nat]" by code_simp
  have "from_bytes (map ?g (rev [0..<8])) = n mod 2 ^ (8 * 8)"
    by (rule from_bytes_big_endian)
  then have "from_bytes b = n mod 2 ^ (8 * 8)"
    unfolding l b .
  also have "\<dots> = n" using r by simp
  finally show ?thesis .
qed

lemma byte_and_0x80: "((b :: byte) AND 0x80 = 0) = (\<not> bit b 7)"
proof -
  have "(b AND 2 ^ 7 = 0) = (\<not> bit b 7)" by (rule and_exp_eq_0_iff_not_bit)
  then show ?thesis by simp
qed

text \<open>
  For a string of digits with a value of at most \<open>10\<^sup>1\<^sup>7\<close> the round trip does hold:
  encoding and decoding give the digits of the value, without leading zeros. The string
  has at most 4300 digits, leading zeros included: \<open>int\<close> refuses a longer one.
\<close>

lemma native_round_trip_digits:
  assumes "ds \<noteq> []" and "list_all is_digit ds" and "int_of_digits ds \<le> 10 ^ 17"
    and "length ds \<le> MAX_STR_DIGITS"
  shows "bind (from_value currency_bytes account_bytes (Str ds)) to_json
           = Inr (JStr (str_nat (int_of_digits ds)))"
proof -
  define v where "v = int (int_of_digits ds)"
  define N where "N = v OR POS_SIGN_BIT_MASK"
  have "v \<le> 10 ^ 17" using assms(3) unfolding v_def
    by (metis of_nat_le_iff of_nat_numeral of_nat_power)
  then have v0: "0 \<le> v" and v62: "v < 2 ^ 62" and v64: "v < 2 ^ 64"
    by (simp_all add: v_def)
  have pos: "POS_SIGN_BIT_MASK = 2 ^ 62" by (simp add: POS_SIGN_BIT_MASK_def)
  have b62: "bit N 62" by (simp add: N_def bit_or_iff pos bit_exp_iff)
  have "\<not> bit v 63" using not_bit_small [OF v0, of 63] v62 by simp
  then have b63: "\<not> bit N 63" by (simp add: N_def bit_or_iff pos bit_exp_iff)
  have "take_bit 62 N = take_bit 62 v OR take_bit 62 (2 ^ 62 :: int)"
    by (simp only: N_def pos take_bit_or)
  also have "\<dots> = v" using v0 v62 by (simp add: take_bit_int_eq_self)
  finally have md: "N mod 2 ^ 62 = v" by (simp only: take_bit_eq_mod)
  have N0: "0 \<le> N" using v0 by (simp add: N_def pos)
  have N64: "N < 2 ^ 64" unfolding N_def pos by (rule OR_upper [OF v0 v64]) simp
  obtain b where b: "to_bytes8 N = Inr b" using to_bytes8_ok [OF N0 N64] by blast
  have ser: "serialize_xrp_amount ds = Inr b"
    using serialize_xrp_amount_digits [OF assms] b by (simp add: N_def v_def)
  have fb: "from_bytes b = N" using b by (rule from_bytes_to_bytes8)
  obtain bs where hd: "b = (word_of_int (drop_bit 56 N) :: byte) # bs"
    using to_bytes8_hd [OF b] by blast
  have h6: "bit (word_of_int (drop_bit 56 N) :: byte) 6"
    using b62 by (simp add: bit_word_of_int_iff bit_drop_bit_eq)
  have h7: "\<not> bit (word_of_int (drop_bit 56 N) :: byte) 7"
    using b63 by (simp add: bit_word_of_int_iff bit_drop_bit_eq)
  have "to_json (Amount b) = Inr (JStr (str_nat (nat v)))"
    using to_json_native [of "word_of_int (drop_bit 56 N)" bs] h6 h7 fb md
    by (simp add: hd byte_and_0x80)
  then show ?thesis by (simp add: from_value_def ser v_def)
qed

end
